theory Spec2Isabelle
  imports Complex_Main "HOL-Library.Signed_Division"
begin

section \<open>Conventions of the embedding\<close>

text \<open>
  The C++ sources \<^verbatim>\<open>Surface.cpp\<close>, \<^verbatim>\<open>Cell.cpp\<close>, \<^verbatim>\<open>Cell.h\<close> and
  \<^verbatim>\<open>VectorizedSolver.cpp\<close> are embedded as HOL functions.

  \<^item> \<^verbatim>\<open>double\<close> and \<^verbatim>\<open>FP_PRECISION\<close> values are idealised as \<^typ>\<open>real\<close>: rounding is
    not modelled. In the constructors, in the subdivision of cells and in
    \<^verbatim>\<open>computeKeff\<close>, where the C++ arithmetic would leave the finite numbers (a division
    by zero, the square root of a negative number) the model returns the error
    \<open>NonFinite\<close> instead of HOL's default value. In the intersections and in
    \<^verbatim>\<open>computeFSRSources\<close>, where the call goes on with the result of a division by zero,
    the values are of the type \<open>fp\<close> below.
  \<^item> \<^verbatim>\<open>int\<close> values are \<^typ>\<open>int\<close>; the counters and group counts of the claims stay far
    from \<open>2^31\<close>. Integer division is C's truncating division \<open>sdiv\<close>.
  \<^item> Static variables (\<^verbatim>\<open>auto_id\<close>, \<^verbatim>\<open>_n\<close>) live in a record \<open>globals\<close> that
    every constructor takes and returns.
  \<^item> \<^verbatim>\<open>log_printf\<close> is declared in a header outside the sources. Modelled from the
    spec: a message of level \<^verbatim>\<open>ERROR\<close> is fatal and raised at the point of detection (the
    function returns \<open>Inl\<close> of an \<open>error\<close>); a message of level \<^verbatim>\<open>NORMAL\<close> is
    appended to \<open>messages\<close> and execution continues; \<^verbatim>\<open>DEBUG\<close> output is not
    modelled.
  \<^item> A pointer to a Surface or to a cell clone is modelled by the object it points to:
    Surfaces are immutable after construction and no operation modelled here mutates a
    clone after it has been stored.
\<close>

datatype error =
    SurfaceIdProhibited int
  | CellIdProhibited int
  | InvalidHalfspace int int int
  | NegativeRings int int
  | NegativeSectors int int
  | NoCircleSurface int
  | CentersDifferX int
  | CentersDifferY int
  | OnlyPositiveHalfspace int
  | DisjointCircles int
  | NullPointer
  | OutOfRange
  | NonFinite
  | IntDivisionByZero

text \<open>
  A loop whose body can raise: the body \<open>f\<close> takes the loop variable and the state, and
  the first error ends the loop.
\<close>

fun iterate :: "('a \<Rightarrow> 's \<Rightarrow> error + 's) \<Rightarrow> 'a list \<Rightarrow> 's \<Rightarrow> error + 's" where
  "iterate f [] st = Inr st"
| "iterate f (x # xs) st = (case f x st of Inl e \<Rightarrow> Inl e | Inr st1 \<Rightarrow> iterate f xs st1)"

text \<open>
  The values of a \<^verbatim>\<open>double\<close> where the source goes on computing after a division by zero
  (the intersections of \<^verbatim>\<open>Surface.cpp\<close> and the sources of \<^verbatim>\<open>computeFSRSources\<close>): a
  real number, one of the two infinities, or not-a-number, with the arithmetic of IEEE 754
  on the special values. Rounding is not modelled, and a zero is the positive zero: a
  non-zero number over zero is the infinity of its sign, and zero over zero is
  not-a-number.
\<close>

datatype fp = Finite real | PlusInf | MinusInf | NaN

definition signed_inf :: "real \<Rightarrow> fp" where
  "signed_inf x = (if 0 < x then PlusInf else if x < 0 then MinusInf else NaN)"

instantiation fp :: "{uminus, plus, minus, times, inverse, abs, ord}"
begin

fun uminus_fp :: "fp \<Rightarrow> fp" where
  "uminus_fp (Finite x) = Finite (- x)"
| "uminus_fp PlusInf = MinusInf"
| "uminus_fp MinusInf = PlusInf"
| "uminus_fp NaN = NaN"

fun plus_fp :: "fp \<Rightarrow> fp \<Rightarrow> fp" where
  "plus_fp (Finite x) (Finite y) = Finite (x + y)"
| "plus_fp NaN b = NaN"
| "plus_fp a NaN = NaN"
| "plus_fp PlusInf MinusInf = NaN"
| "plus_fp MinusInf PlusInf = NaN"
| "plus_fp PlusInf PlusInf = PlusInf"
| "plus_fp MinusInf MinusInf = MinusInf"
| "plus_fp PlusInf (Finite y) = PlusInf"
| "plus_fp MinusInf (Finite y) = MinusInf"
| "plus_fp (Finite x) PlusInf = PlusInf"
| "plus_fp (Finite x) MinusInf = MinusInf"

definition minus_fp :: "fp \<Rightarrow> fp \<Rightarrow> fp" where
  "minus_fp a b = a + (- b)"

fun times_fp :: "fp \<Rightarrow> fp \<Rightarrow> fp" where
  "times_fp (Finite x) (Finite y) = Finite (x * y)"
| "times_fp NaN b = NaN"
| "times_fp a NaN = NaN"
| "times_fp (Finite x) PlusInf = signed_inf x"
| "times_fp (Finite x) MinusInf = signed_inf (- x)"
| "times_fp PlusInf (Finite y) = signed_inf y"
| "times_fp MinusInf (Finite y) = signed_inf (- y)"
| "times_fp PlusInf PlusInf = PlusInf"
| "times_fp MinusInf MinusInf = PlusInf"
| "times_fp PlusInf MinusInf = MinusInf"
| "times_fp MinusInf PlusInf = MinusInf"

fun divide_fp :: "fp \<Rightarrow> fp \<Rightarrow> fp" where
  "divide_fp (Finite x) (Finite y) = (if y = 0 then signed_inf x else Finite (x / y))"
| "divide_fp NaN b = NaN"
| "divide_fp a NaN = NaN"
| "divide_fp (Finite x) PlusInf = Finite 0"
| "divide_fp (Finite x) MinusInf = Finite 0"
| "divide_fp PlusInf (Finite y) = (if 0 \<le> y then PlusInf else MinusInf)"
| "divide_fp MinusInf (Finite y) = (if 0 \<le> y then MinusInf else PlusInf)"
| "divide_fp PlusInf PlusInf = NaN"
| "divide_fp PlusInf MinusInf = NaN"
| "divide_fp MinusInf PlusInf = NaN"
| "divide_fp MinusInf MinusInf = NaN"

fun inverse_fp :: "fp \<Rightarrow> fp" where
  "inverse_fp (Finite x) = (if x = 0 then PlusInf else Finite (1 / x))"
| "inverse_fp PlusInf = Finite 0"
| "inverse_fp MinusInf = Finite 0"
| "inverse_fp NaN = NaN"

fun abs_fp :: "fp \<Rightarrow> fp" where
  "abs_fp (Finite x) = Finite \<bar>x\<bar>"
| "abs_fp PlusInf = PlusInf"
| "abs_fp MinusInf = PlusInf"
| "abs_fp NaN = NaN"

fun less_fp :: "fp \<Rightarrow> fp \<Rightarrow> bool" where
  "less_fp (Finite x) (Finite y) = (x < y)"
| "less_fp NaN b = False"
| "less_fp a NaN = False"
| "less_fp (Finite x) PlusInf = True"
| "less_fp (Finite x) MinusInf = False"
| "less_fp PlusInf b = False"
| "less_fp MinusInf (Finite y) = True"
| "less_fp MinusInf PlusInf = True"
| "less_fp MinusInf MinusInf = False"

definition less_eq_fp :: "fp \<Rightarrow> fp \<Rightarrow> bool" where
  "less_eq_fp a b = (a < b \<or> (a = b \<and> a \<noteq> NaN))"

instance ..

end

text \<open>\<^verbatim>\<open>sqrt\<close> on these values.\<close>

fun fp_sqrt :: "fp \<Rightarrow> fp" where
  "fp_sqrt (Finite x) = (if x < 0 then NaN else Finite (sqrt x))"
| "fp_sqrt PlusInf = PlusInf"
| "fp_sqrt MinusInf = NaN"
| "fp_sqrt NaN = NaN"

record globals =
  surf_auto_id :: int
  surf_n :: int
  cell_auto_id :: int
  cell_n :: int
  messages :: "string list"

text \<open>The initial values of the static variables (Surface.cpp lines 3-5, Cell.cpp lines 4-6).\<close>

definition initial_globals :: globals where
  "initial_globals =
     \<lparr>surf_auto_id = 10000, surf_n = 0, cell_auto_id = 10000, cell_n = 0, messages = []\<rparr>"

section \<open>Surface.cpp: surfaces and their constructors\<close>

datatype surfaceType = PLANE | XPLANE | YPLANE | ZPLANE | CIRCLE

datatype boundaryType = BOUNDARY_NONE | REFLECTIVE | VACUUM

text \<open>
  One record holds the fields of the class hierarchy \<^verbatim>\<open>Surface\<close>, \<^verbatim>\<open>Plane\<close>,
  \<^verbatim>\<open>Circle\<close>. A plane uses \<open>coef_A\<close>, \<open>coef_B\<close>, \<open>coef_C\<close>; a circle uses all five
  coefficients, \<open>radius\<close> and the centre. Fields a class does not have are \<open>0\<close>.
\<close>

record Surface =
  s_uid :: int
  s_id :: int
  surface_type :: surfaceType
  boundary_type :: boundaryType
  coef_A :: real
  coef_B :: real
  coef_C :: real
  coef_D :: real
  coef_E :: real
  radius :: real
  center_x :: real
  center_y :: real

text \<open>\<^verbatim>\<open>surf_id()\<close>: returns the counter and increments it.\<close>

definition surf_id :: "globals \<Rightarrow> int \<times> globals" where
  "surf_id g = (surf_auto_id g, g\<lparr>surf_auto_id := surf_auto_id g + 1\<rparr>)"

text \<open>
  \<^verbatim>\<open>Surface::Surface(const int id)\<close>. The second branch calls \<^verbatim>\<open>surf_id()\<close> inside its
  condition, so the user id is compared with the current value of the counter and the
  counter is incremented whenever \<open>id \<noteq> 0\<close>. The result is the pair \<open>(_id, _uid)\<close>.
\<close>

definition Surface_ctor :: "int \<Rightarrow> globals \<Rightarrow> error + ((int \<times> int) \<times> globals)" where
  "Surface_ctor ident g =
     (if ident = 0 then
        (let (i, g1) = surf_id g
         in Inr ((i, surf_n g1), g1\<lparr>surf_n := surf_n g1 + 1\<rparr>))
      else
        (let (i, g1) = surf_id g
         in if ident \<ge> i then Inl (SurfaceIdProhibited ident)
            else Inr ((ident, surf_n g1), g1\<lparr>surf_n := surf_n g1 + 1\<rparr>)))"

definition Plane_ctor :: "real \<Rightarrow> real \<Rightarrow> real \<Rightarrow> int \<Rightarrow> globals \<Rightarrow> error + (Surface \<times> globals)" where
  "Plane_ctor a b c ident g =
     (case Surface_ctor ident g of
        Inl e \<Rightarrow> Inl e
      | Inr ((i, u), g1) \<Rightarrow>
          Inr (\<lparr>s_uid = u, s_id = i, surface_type = PLANE, boundary_type = BOUNDARY_NONE,
                coef_A = a, coef_B = b, coef_C = c, coef_D = 0, coef_E = 0,
                radius = 0, center_x = 0, center_y = 0\<rparr>, g1))"

definition XPlane_ctor :: "real \<Rightarrow> int \<Rightarrow> globals \<Rightarrow> error + (Surface \<times> globals)" where
  "XPlane_ctor x ident g =
     (case Plane_ctor 1 0 (- x) ident g of
        Inl e \<Rightarrow> Inl e
      | Inr (s, g1) \<Rightarrow> Inr (s\<lparr>surface_type := XPLANE\<rparr>, g1))"

definition YPlane_ctor :: "real \<Rightarrow> int \<Rightarrow> globals \<Rightarrow> error + (Surface \<times> globals)" where
  "YPlane_ctor y ident g =
     (case Plane_ctor 0 1 (- y) ident g of
        Inl e \<Rightarrow> Inl e
      | Inr (s, g1) \<Rightarrow> Inr (s\<lparr>surface_type := YPLANE\<rparr>, g1))"

definition ZPlane_ctor :: "real \<Rightarrow> int \<Rightarrow> globals \<Rightarrow> error + (Surface \<times> globals)" where
  "ZPlane_ctor z ident g =
     (case Plane_ctor 0 0 (- z) ident g of
        Inl e \<Rightarrow> Inl e
      | Inr (s, g1) \<Rightarrow> Inr (s\<lparr>surface_type := ZPLANE\<rparr>, g1))"

definition Circle_ctor :: "real \<Rightarrow> real \<Rightarrow> real \<Rightarrow> int \<Rightarrow> globals \<Rightarrow> error + (Surface \<times> globals)" where
  "Circle_ctor x y r ident g =
     (case Surface_ctor ident g of
        Inl e \<Rightarrow> Inl e
      | Inr ((i, u), g1) \<Rightarrow>
          Inr (\<lparr>s_uid = u, s_id = i, surface_type = CIRCLE, boundary_type = BOUNDARY_NONE,
                coef_A = 1, coef_B = 1, coef_C = - 2 * x, coef_D = - 2 * y,
                coef_E = x * x + y * y - r * r,
                radius = r, center_x = x, center_y = y\<rparr>, g1))"

section \<open>Cell.cpp: cells\<close>

datatype cellType = MATERIAL | FILL

record surface_halfspace =
  surface :: Surface
  halfspace :: int

text \<open>
  \<^verbatim>\<open>std::map<int, surface_halfspace>\<close> is an association list whose keys increase
  strictly; iteration visits it from left to right. \<open>map_assign k v m\<close> is
  \<^verbatim>\<open>m[k] = v\<close>: it replaces the value of an existing key and inserts a new key at its
  place in the order.
\<close>

type_synonym surface_map = "(int \<times> surface_halfspace) list"

fun map_assign :: "int \<Rightarrow> 'v \<Rightarrow> (int \<times> 'v) list \<Rightarrow> (int \<times> 'v) list" where
  "map_assign k v [] = [(k, v)]"
| "map_assign k v ((k', v') # m) =
     (if k < k' then (k, v) # (k', v') # m
      else if k = k' then (k, v) # m
      else (k', v') # map_assign k v m)"

text \<open>The fields of \<^verbatim>\<open>Cell\<close> and the scalar fields of \<^verbatim>\<open>CellBasic\<close>.\<close>

record cell_fields =
  c_uid :: int
  c_id :: int
  cell_type :: cellType
  universe :: int
  surfaces :: surface_map
  material :: int
  num_rings :: int
  num_sectors :: int

text \<open>
  A \<^verbatim>\<open>CellBasic\<close>: its fields and the three containers of clones \<^verbatim>\<open>_rings\<close>,
  \<^verbatim>\<open>_sectors\<close>, \<^verbatim>\<open>_subcells\<close>.
\<close>

datatype CellBasic =
  CellBasic (core: cell_fields) (rings: "CellBasic list") (sectors: "CellBasic list")
    (subcells: "CellBasic list")

text \<open>\<^verbatim>\<open>cell_id()\<close>: returns the counter and increments it.\<close>

definition cell_id :: "globals \<Rightarrow> int \<times> globals" where
  "cell_id g = (cell_auto_id g, g\<lparr>cell_auto_id := cell_auto_id g + 1\<rparr>)"

text \<open>\<^verbatim>\<open>Cell::Cell(int universe, int id)\<close>; the result is \<open>(_id, _uid)\<close>.\<close>

definition Cell_ctor :: "int \<Rightarrow> int \<Rightarrow> globals \<Rightarrow> error + ((int \<times> int) \<times> globals)" where
  "Cell_ctor u ident g =
     (if ident = 0 then
        (let (i, g1) = cell_id g
         in Inr ((i, cell_n g1), g1\<lparr>cell_n := cell_n g1 + 1\<rparr>))
      else if ident \<ge> 10000 then Inl (CellIdProhibited ident)
      else Inr ((ident, cell_n g), g\<lparr>cell_n := cell_n g + 1\<rparr>))"

definition map_fields :: "(cell_fields \<Rightarrow> cell_fields) \<Rightarrow> CellBasic \<Rightarrow> CellBasic" where
  "map_fields f c = CellBasic (f (core c)) (rings c) (sectors c) (subcells c)"

text \<open>\<^verbatim>\<open>Cell::getNumSurfaces\<close>: the size of the map.\<close>

definition getNumSurfaces :: "CellBasic \<Rightarrow> int" where
  "getNumSurfaces c = int (length (surfaces (core c)))"

text \<open>\<^verbatim>\<open>Cell::addSurface(int halfspace, Surface* surface)\<close>.\<close>

definition addSurface :: "int \<Rightarrow> Surface \<Rightarrow> CellBasic \<Rightarrow> error + CellBasic" where
  "addSurface h s c =
     (if h \<noteq> - 1 \<and> h \<noteq> 1 then Inl (InvalidHalfspace (s_id s) (c_id (core c)) h)
      else Inr (map_fields
        (\<lambda>f. f\<lparr>surfaces := map_assign (s_id s) \<lparr>surface = s, halfspace = h\<rparr> (surfaces f)\<rparr>) c))"

definition setNumRings :: "int \<Rightarrow> CellBasic \<Rightarrow> error + CellBasic" where
  "setNumRings n c =
     (if n < 0 then Inl (NegativeRings n (c_id (core c)))
      else Inr (map_fields (\<lambda>f. f\<lparr>num_rings := n\<rparr>) c))"

definition setNumSectors :: "int \<Rightarrow> CellBasic \<Rightarrow> error + CellBasic" where
  "setNumSectors n c =
     (if n < 0 then Inl (NegativeSectors n (c_id (core c)))
      else if n = 1 then Inr (map_fields (\<lambda>f. f\<lparr>num_sectors := 0\<rparr>) c)
      else Inr (map_fields (\<lambda>f. f\<lparr>num_sectors := n\<rparr>) c))"

text \<open>
  \<^verbatim>\<open>CellBasic::CellBasic(universe, material, rings, sectors, id)\<close>. The counts are
  written by the two setters; the containers start empty.
\<close>

definition CellBasic_ctor ::
  "int \<Rightarrow> int \<Rightarrow> int \<Rightarrow> int \<Rightarrow> int \<Rightarrow> globals \<Rightarrow> error + (CellBasic \<times> globals)" where
  "CellBasic_ctor u m r s ident g =
     (case Cell_ctor u ident g of
        Inl e \<Rightarrow> Inl e
      | Inr ((i, uid), g1) \<Rightarrow>
          (case setNumRings r
                  (CellBasic \<lparr>c_uid = uid, c_id = i, cell_type = MATERIAL, universe = u,
                     surfaces = [], material = m, num_rings = 0, num_sectors = 0\<rparr> [] [] []) of
             Inl e \<Rightarrow> Inl e
           | Inr c1 \<Rightarrow>
               (case setNumSectors s c1 of
                  Inl e \<Rightarrow> Inl e
                | Inr c2 \<Rightarrow> Inr (c2, g1))))"

text \<open>The loop of \<^verbatim>\<open>clone()\<close> that adds every Surface of the map to the new cell.\<close>

definition add_surfaces :: "surface_map \<Rightarrow> CellBasic \<Rightarrow> error + CellBasic" where
  "add_surfaces m n = iterate (\<lambda>entry n1. addSurface (halfspace (snd entry)) (surface (snd entry)) n1) m n"

text \<open>\<^verbatim>\<open>CellBasic::clone()\<close>.\<close>

definition clone :: "CellBasic \<Rightarrow> globals \<Rightarrow> error + (CellBasic \<times> globals)" where
  "clone c g =
     (case CellBasic_ctor (universe (core c)) (material (core c))
             (num_rings (core c)) (num_sectors (core c)) 0 g of
        Inl e \<Rightarrow> Inl e
      | Inr (n, g1) \<Rightarrow>
          (case add_surfaces (surfaces (core c)) n of
             Inl e \<Rightarrow> Inl e
           | Inr n1 \<Rightarrow> Inr (n1, g1)))"

subsection \<open>Sectors\<close>

text \<open>\<^verbatim>\<open>std::vector::at\<close>: a checked read.\<close>

definition vector_at :: "'a list \<Rightarrow> nat \<Rightarrow> error + 'a" where
  "vector_at xs i = (if i < length xs then Inr (xs ! i) else Inl OutOfRange)"

text \<open>
  The body of the first loop of \<^verbatim>\<open>sectorize()\<close>: \<^verbatim>\<open>new Plane(A, B, 0.)\<close> with the
  automatic id (the constructor's default id \<open>0\<close>), appended to \<^verbatim>\<open>planes\<close>.
\<close>

definition create_plane :: "real \<Rightarrow> nat \<Rightarrow> Surface list \<times> globals \<Rightarrow> error + (Surface list \<times> globals)" where
  "create_plane delta_azim i st =
     (let azim_angle = real i * delta_azim
      in case Plane_ctor (cos azim_angle) (sin azim_angle) 0 0 (snd st) of
           Inl e \<Rightarrow> Inl e
         | Inr (plane, g1) \<Rightarrow> Inr (fst st @ [plane], g1))"

text \<open>
  The body of the second loop of \<^verbatim>\<open>sectorize()\<close>: the clone for sector \<open>i\<close>, appended
  to \<^verbatim>\<open>_sectors\<close>.
\<close>

definition create_sector :: "CellBasic \<Rightarrow> Surface list \<Rightarrow> nat \<Rightarrow> CellBasic list \<times> globals \<Rightarrow>
    error + (CellBasic list \<times> globals)" where
  "create_sector c planes i st =
     (case clone c (snd st) of
        Inl e \<Rightarrow> Inl e
      | Inr (s0, g1) \<Rightarrow>
     (case setNumSectors 0 s0 of
        Inl e \<Rightarrow> Inl e
      | Inr s1 \<Rightarrow>
     (case setNumRings 0 s1 of
        Inl e \<Rightarrow> Inl e
      | Inr s2 \<Rightarrow>
     (case vector_at planes i of
        Inl e \<Rightarrow> Inl e
      | Inr p \<Rightarrow>
     (case addSurface 1 p s2 of
        Inl e \<Rightarrow> Inl e
      | Inr s3 \<Rightarrow>
          (if num_sectors (core c) \<noteq> 2 then
             (case vector_at planes (if int i + 1 < num_sectors (core c) then i + 1 else 0) of
                Inl e \<Rightarrow> Inl e
              | Inr q \<Rightarrow>
                  (case addSurface (- 1) q s3 of
                     Inl e \<Rightarrow> Inl e
                   | Inr s4 \<Rightarrow> Inr (fst st @ [s4], g1)))
           else Inr (fst st @ [s3], g1)))))))"

text \<open>\<^verbatim>\<open>CellBasic::sectorize()\<close>.\<close>

definition sectorize :: "CellBasic \<Rightarrow> globals \<Rightarrow> error + (CellBasic \<times> globals)" where
  "sectorize c g =
     (if num_sectors (core c) = 0 then Inr (c, g)
      else
        (let delta_azim = 2 * pi / real_of_int (num_sectors (core c));
             idx = [0 ..< nat (num_sectors (core c))]
         in case iterate (create_plane delta_azim) idx ([], g) of
              Inl e \<Rightarrow> Inl e
            | Inr (planes, g1) \<Rightarrow>
                (case iterate (create_sector c planes) idx (sectors c, g1) of
                   Inl e \<Rightarrow> Inl e
                 | Inr (secs, g2) \<Rightarrow> Inr (CellBasic (core c) (rings c) secs secs, g2))))"

subsection \<open>Rings\<close>

text \<open>The local variables that the first loop of \<^verbatim>\<open>ringify()\<close> fills.\<close>

record circle_scan =
  num_circles :: int
  circle1 :: "Surface option"
  circle2 :: "Surface option"
  radius1 :: real
  radius2 :: real
  x1 :: real
  y1 :: real
  x2 :: real
  y2 :: real
  halfspace1 :: int
  halfspace2 :: int

definition scan_init :: circle_scan where
  "scan_init = \<lparr>num_circles = 0, circle1 = None, circle2 = None, radius1 = 0, radius2 = 0,
     x1 = 0, y1 = 0, x2 = 0, y2 = 0, halfspace1 = 0, halfspace2 = 0\<rparr>"

definition scan_step :: "circle_scan \<Rightarrow> surface_halfspace \<Rightarrow> circle_scan" where
  "scan_step sc sh =
     (if surface_type (surface sh) = CIRCLE then
        (let sc1 =
           (if halfspace sh = - 1 then
              sc\<lparr>halfspace1 := halfspace sh, circle1 := Some (surface sh),
                 radius1 := radius (surface sh), x1 := center_x (surface sh),
                 y1 := center_y (surface sh)\<rparr>
            else if halfspace sh = 1 then
              sc\<lparr>halfspace2 := halfspace sh, circle2 := Some (surface sh),
                 radius2 := radius (surface sh), x2 := center_x (surface sh),
                 y2 := center_y (surface sh)\<rparr>
            else sc)
         in sc1\<lparr>num_circles := num_circles sc1 + 1\<rparr>)
      else sc)"

definition scan_circles :: "surface_map \<Rightarrow> circle_scan" where
  "scan_circles m = foldl scan_step scan_init (map snd m)"

text \<open>
  The error checks of \<^verbatim>\<open>ringify()\<close>, in the order of the source. The message for more than
  two circles has level \<^verbatim>\<open>NORMAL\<close>: it is recorded and the checks go on. An \<^verbatim>\<open>ERROR\<close>
  message whose arguments read the id of a Circle pointer that is still \<^verbatim>\<open>NULL\<close> is the
  error \<open>NullPointer\<close>.
\<close>

definition too_many_circles :: string where
  "too_many_circles = ''Unable to ringify Cell since it contains more than 2 CIRCLE Surfaces''"

definition ringify_checks :: "int \<Rightarrow> circle_scan \<Rightarrow> globals \<Rightarrow> error + globals" where
  "ringify_checks cid sc g =
     (if num_circles sc = 0 then Inl (NoCircleSurface cid)
      else
        (let g1 = (if num_circles sc > 2 then g\<lparr>messages := messages g @ [too_many_circles]\<rparr> else g)
         in if x1 sc \<noteq> x2 sc \<and> num_circles sc = 2 then
              (if circle1 sc = None \<or> circle2 sc = None then Inl NullPointer
               else Inl (CentersDifferX cid))
            else if y1 sc \<noteq> y2 sc \<and> num_circles sc = 2 then
              (if circle1 sc = None \<or> circle2 sc = None then Inl NullPointer
               else Inl (CentersDifferY cid))
            else if circle1 sc = None \<and> circle2 sc \<noteq> None then Inl (OnlyPositiveHalfspace cid)
            else if radius1 sc \<le> radius2 sc then
              (if circle1 sc = None \<or> circle2 sc = None then Inl NullPointer
               else Inl (DisjointCircles cid))
            else Inr g1))"

text \<open>
  The body of the loop that generates successively smaller Circles. The state is the
  current radius \<^verbatim>\<open>radius1\<close>, the vector \<^verbatim>\<open>circles\<close> and the statics. The square root
  of a negative number is the error \<open>NonFinite\<close>.
\<close>

definition create_circle :: "real \<Rightarrow> real \<Rightarrow> real \<Rightarrow> nat \<Rightarrow> real \<times> Surface list \<times> globals \<Rightarrow>
    error + (real \<times> Surface list \<times> globals)" where
  "create_circle cx cy area i st =
     (let r1 = fst st; circles = fst (snd st); g = snd (snd st)
      in if r1 * r1 - area / pi < 0 then Inl NonFinite
         else
           (let r2 = sqrt (r1 * r1 - area / pi)
            in case Circle_ctor cx cy r1 0 g of
                 Inl e \<Rightarrow> Inl e
               | Inr (circle, g1) \<Rightarrow> Inr (r2, circles @ [circle], g1)))"

text \<open>
  One ring for the Circle at position \<open>k\<close>: a clone of \<open>src\<close> (the cell itself or one of
  its sectors) with both counts reset, bounded outside by that Circle and, unless it is
  the last one, inside by the next; the ring is appended to \<^verbatim>\<open>_rings\<close>.
\<close>

definition create_ring :: "Surface list \<Rightarrow> nat \<Rightarrow> CellBasic \<Rightarrow> CellBasic list \<times> globals \<Rightarrow>
    error + (CellBasic list \<times> globals)" where
  "create_ring circles k src st =
     (case clone src (snd st) of
        Inl e \<Rightarrow> Inl e
      | Inr (r0, g1) \<Rightarrow>
     (case setNumSectors 0 r0 of
        Inl e \<Rightarrow> Inl e
      | Inr r1 \<Rightarrow>
     (case setNumRings 0 r1 of
        Inl e \<Rightarrow> Inl e
      | Inr r2 \<Rightarrow>
     (case addSurface (- 1) (circles ! k) r2 of
        Inl e \<Rightarrow> Inl e
      | Inr r3 \<Rightarrow>
          (if k + 1 = length circles then Inr (fst st @ [r3], g1)
           else
             (case addSurface 1 (circles ! (k + 1)) r3 of
                Inl e \<Rightarrow> Inl e
              | Inr r4 \<Rightarrow> Inr (fst st @ [r4], g1)))))))"

text \<open>
  The body of the loop over the Circles. With sectors the Circle gives one ring per
  sector; without, one ring of the cell itself (the \<^verbatim>\<open>break\<close> at the last Circle ends a
  loop that would end anyway).
\<close>

definition create_rings :: "CellBasic \<Rightarrow> Surface list \<Rightarrow> nat \<Rightarrow> CellBasic list \<times> globals \<Rightarrow>
    error + (CellBasic list \<times> globals)" where
  "create_rings c circles k st =
     (if sectors c \<noteq> [] then iterate (create_ring circles k) (sectors c) st
      else create_ring circles k c st)"

text \<open>\<^verbatim>\<open>CellBasic::ringify()\<close>.\<close>

definition ringify :: "CellBasic \<Rightarrow> globals \<Rightarrow> error + (CellBasic \<times> globals)" where
  "ringify c g =
     (if num_rings (core c) = 0 then Inr (c, g)
      else
        (let sc = scan_circles (surfaces (core c))
         in case ringify_checks (c_id (core c)) sc g of
              Inl e \<Rightarrow> Inl e
            | Inr g1 \<Rightarrow>
        (let area = pi * \<bar>radius1 sc * radius1 sc - radius2 sc * radius2 sc\<bar>
                      / real_of_int (num_rings (core c))
         in case iterate (create_circle (x1 sc) (y1 sc) area)
                   [0 ..< nat (num_rings (core c) - 1)] (radius1 sc, [], g1) of
              Inl e \<Rightarrow> Inl e
            | Inr (r_last, circles0, g2) \<Rightarrow>
        (case Circle_ctor (x1 sc) (y1 sc) r_last 0 g2 of
              Inl e \<Rightarrow> Inl e
            | Inr (circle, g3) \<Rightarrow>
        (let circles = circles0 @ [circle]
         in case iterate (create_rings c circles) [0 ..< length circles] (rings c, g3) of
              Inl e \<Rightarrow> Inl e
            | Inr (rs, g4) \<Rightarrow> Inr (CellBasic (core c) rs (sectors c) rs, g4))))))"

text \<open>\<^verbatim>\<open>CellBasic::subdivideCell()\<close>: the returned vector, the cell and the statics.\<close>

definition subdivideCell :: "CellBasic \<Rightarrow> globals \<Rightarrow> error + (CellBasic list \<times> CellBasic \<times> globals)" where
  "subdivideCell c g =
     (case sectorize c g of
        Inl e \<Rightarrow> Inl e
      | Inr (c1, g1) \<Rightarrow>
          (case ringify c1 g1 of
             Inl e \<Rightarrow> Inl e
           | Inr (c2, g2) \<Rightarrow> Inr (subcells c2, c2, g2)))"

section \<open>Surface.cpp: ray intersection\<close>

text \<open>
  The coordinates of a Point are \<^verbatim>\<open>double\<close> values that an intersection may leave
  infinite or not-a-number.
\<close>

record Point =
  px :: fp
  py :: fp

text \<open>
  Modelled from the spec: \<^verbatim>\<open>evaluate\<close> and \<^verbatim>\<open>ON_SURFACE_THRESH\<close> are declared in
  \<^verbatim>\<open>Surface.h\<close>, which is not among the sources. The spec gives the implicit forms
  \<open>A x + B y + C\<close> for the planes and \<open>x\<^sup>2 + y\<^sup>2 + C x + D y + E\<close> for a circle, and
  the threshold \<open>1e-12\<close>.
\<close>

definition evaluate :: "Surface \<Rightarrow> Point \<Rightarrow> fp" where
  "evaluate s p =
     (if surface_type s = CIRCLE then
        px p * px p + py p * py p + Finite (coef_C s) * px p + Finite (coef_D s) * py p
          + Finite (coef_E s)
      else Finite (coef_A s) * px p + Finite (coef_B s) * py p + Finite (coef_C s))"

definition ON_SURFACE_THRESH :: real where
  "ON_SURFACE_THRESH = 1 / 10 ^ 12"

text \<open>
  The output buffer \<^verbatim>\<open>Point* points\<close> holds two Points, the most that an intersection
  writes; \<open>set_point\<close> is \<^verbatim>\<open>points[num].setCoords(x, y)\<close>.
\<close>

definition set_point :: "int \<Rightarrow> fp \<Rightarrow> fp \<Rightarrow> Point \<times> Point \<Rightarrow> Point \<times> Point" where
  "set_point num x y points =
     (if num = 0 then (\<lparr>px = x, py = y\<rparr>, snd points) else (fst points, \<lparr>px = x, py = y\<rparr>))"

text \<open>The forward filter that follows every \<^verbatim>\<open>setCoords\<close>: the new value of \<^verbatim>\<open>num\<close>.\<close>

definition count_forward :: "real \<Rightarrow> fp \<Rightarrow> fp \<Rightarrow> int \<Rightarrow> int" where
  "count_forward angle ycurr y0 num =
     (if angle < pi \<and> ycurr > y0 then num + 1
      else if angle > pi \<and> ycurr < y0 then num + 1
      else num)"

text \<open>
  \<^verbatim>\<open>Plane::intersection\<close>, inherited by the three axis planes. No division is guarded: a
  plane with \<^verbatim>\<open>_A\<close> and \<^verbatim>\<open>_B\<close> both zero (a ZPlane) on a track that is not vertical
  divides by zero and the call goes on with the infinite coordinate.
\<close>

definition Plane_intersection :: "Surface \<Rightarrow> Point \<Rightarrow> real \<Rightarrow> Point \<times> Point \<Rightarrow> int \<times> Point \<times> Point" where
  "Plane_intersection s point angle points =
     (let x0 = px point; y0 = py point;
          A = Finite (coef_A s); B = Finite (coef_B s); C = Finite (coef_C s)
      in if \<bar>angle - pi / 2\<bar> < 1 / 10 ^ 10 then
           (if coef_B s = 0 then (0, points)
            else
              (let xcurr = x0; ycurr = (- A * x0 - C) / B
               in (count_forward angle ycurr y0 0, set_point 0 xcurr ycurr points)))
         else
           (let m = Finite (sin angle) / Finite (cos angle)
            in if \<bar>- A / B - m\<bar> < Finite (1 / 10 ^ 11) \<and> coef_B s \<noteq> 0 then (0, points)
               else
                 (let xcurr = - (B * (y0 - m * x0) + C) / (A + B * m);
                      ycurr = y0 + m * (xcurr - x0)
                  in (count_forward angle ycurr y0 0, set_point 0 xcurr ycurr points))))"

text \<open>
  The three cases of \<^verbatim>\<open>Circle::intersection\<close> on the discriminant, for a vertical track
  (the quadratic is in \<open>y\<close>) ...
\<close>

definition Circle_vertical :: "fp \<Rightarrow> fp \<Rightarrow> fp \<Rightarrow> fp \<Rightarrow> fp \<Rightarrow> real \<Rightarrow> Point \<times> Point \<Rightarrow>
    int \<times> Point \<times> Point" where
  "Circle_vertical a b c x0 y0 angle points =
     (let discr = b * b - Finite 4 * a * c
      in if discr < Finite 0 then (0, points)
         else if discr = Finite 0 then
           (let xcurr = x0; ycurr = - b / (Finite 2 * a)
            in (count_forward angle ycurr y0 0, set_point 0 xcurr ycurr points))
         else
           (let ycurr1 = (- b + fp_sqrt discr) / (Finite 2 * a);
                points1 = set_point 0 x0 ycurr1 points;
                num1 = count_forward angle ycurr1 y0 0;
                ycurr2 = (- b - fp_sqrt discr) / (Finite 2 * a);
                points2 = set_point num1 x0 ycurr2 points1
            in (count_forward angle ycurr2 y0 num1, points2)))"

text \<open>
  ... and for any other track (the quadratic is in \<open>x\<close>). In the case of one
  intersection the source computes \<^verbatim>\<open>ycurr\<close> from \<^verbatim>\<open>points[0].getX()\<close>, the x coordinate
  that the buffer held on entry, before \<^verbatim>\<open>setCoords\<close> stores \<^verbatim>\<open>xcurr\<close>.
\<close>

definition Circle_sloped :: "fp \<Rightarrow> fp \<Rightarrow> fp \<Rightarrow> fp \<Rightarrow> fp \<Rightarrow> fp \<Rightarrow> real \<Rightarrow> Point \<times> Point \<Rightarrow>
    int \<times> Point \<times> Point" where
  "Circle_sloped a b c m x0 y0 angle points =
     (let discr = b * b - Finite 4 * a * c
      in if discr < Finite 0 then (0, points)
         else if discr = Finite 0 then
           (let xcurr = - b / (Finite 2 * a); ycurr = y0 + m * (px (fst points) - x0)
            in (count_forward angle ycurr y0 0, set_point 0 xcurr ycurr points))
         else
           (let xcurr1 = (- b + fp_sqrt discr) / (Finite 2 * a);
                ycurr1 = y0 + m * (xcurr1 - x0);
                points1 = set_point 0 xcurr1 ycurr1 points;
                num1 = count_forward angle ycurr1 y0 0;
                xcurr2 = (- b - fp_sqrt discr) / (Finite 2 * a);
                ycurr2 = y0 + m * (xcurr2 - x0);
                points2 = set_point num1 xcurr2 ycurr2 points1
            in (count_forward angle ycurr2 y0 num1, points2)))"

text \<open>\<^verbatim>\<open>Circle::intersection\<close>.\<close>

definition Circle_intersection :: "Surface \<Rightarrow> Point \<Rightarrow> real \<Rightarrow> Point \<times> Point \<Rightarrow> int \<times> Point \<times> Point" where
  "Circle_intersection s point angle points =
     (let x0 = px point; y0 = py point;
          A = Finite (coef_A s); B = Finite (coef_B s); C = Finite (coef_C s);
          D = Finite (coef_D s); E = Finite (coef_E s)
      in if \<bar>angle - pi / 2\<bar> < 1 / 10 ^ 10 then
           Circle_vertical (B * B) D (A * x0 * x0 + C * x0 + E) x0 y0 angle points
         else
           (let m = Finite (sin angle) / Finite (cos angle); q = y0 - m * x0
            in Circle_sloped (A + B * B * m * m) (Finite 2 * B * m * q + C + D * m)
                 (B * q * q + D * q + E) m x0 y0 angle points))"

text \<open>The virtual call \<^verbatim>\<open>surface->intersection(point, angle, points)\<close>.\<close>

definition intersection :: "Surface \<Rightarrow> Point \<Rightarrow> real \<Rightarrow> Point \<times> Point \<Rightarrow> int \<times> Point \<times> Point" where
  "intersection s point angle points =
     (if surface_type s = CIRCLE then Circle_intersection s point angle points
      else Plane_intersection s point angle points)"

section \<open>VectorizedSolver.cpp\<close>

text \<open>
  An array of \<^verbatim>\<open>double\<close> or \<^verbatim>\<open>FP_PRECISION\<close> is a function from the index to the value. The
  content of an array that \<^verbatim>\<open>new\<close> has just allocated is not initialised: it is a
  parameter of the function that allocates it.
\<close>

type_synonym array = "nat \<Rightarrow> real"

text \<open>
  The arrays of sources and ratios, which \<^verbatim>\<open>computeFSRSources\<close> writes with unguarded
  divisions.
\<close>

type_synonym fp_array = "nat \<Rightarrow> fp"

record Material =
  sigma_t :: array
  sigma_a :: array
  nu_sigma_f :: array
  chi :: array
  sigma_s :: array

record solver =
  num_FSRs :: int
  num_groups :: int
  num_polar :: int
  polar_times_groups :: int
  tot_num_tracks :: int
  vector_length :: int
  vector_alignment :: int
  num_vector_lengths :: int
  FSR_volumes :: array
  FSR_materials :: "nat \<Rightarrow> Material"
  scalar_flux :: array
  source :: fp_array
  old_source :: fp_array
  ratios :: fp_array
  boundary_leakage :: array
  k_eff :: real
  leakage :: real

text \<open>
  \<^verbatim>\<open>VectorizedSolver::setGeometry\<close>. The call \<^verbatim>\<open>CPUSolver::setGeometry(geometry)\<close> is not
  among the sources and is the parameter \<open>CPUSolver_setGeometry\<close>: it leaves the
  geometry's number of energy groups in \<^verbatim>\<open>_num_groups\<close>. The loop over the materials calls
  \<^verbatim>\<open>alignData\<close>, which changes no field of the solver. A division by a vector length of
  zero is the error \<open>IntDivisionByZero\<close>.
\<close>

definition setGeometry :: "(solver \<Rightarrow> solver) \<Rightarrow> solver \<Rightarrow> error + solver" where
  "setGeometry CPUSolver_setGeometry s0 =
     (let s = CPUSolver_setGeometry s0
      in if vector_length s = 0 then Inl IntDivisionByZero
         else
           (let s1 = s\<lparr>num_vector_lengths := (num_groups s + 1) sdiv vector_length s\<rparr>;
                s2 = s1\<lparr>num_groups := num_vector_lengths s1 * vector_length s1\<rparr>
            in Inr (s2\<lparr>polar_times_groups := num_groups s2 * num_polar s2\<rparr>)))"

text \<open>
  Modelled from the spec: the accessor macros \<^verbatim>\<open>_scalar_flux(r,e)\<close>, \<^verbatim>\<open>_source(r,G)\<close>,
  \<^verbatim>\<open>_old_source(r,G)\<close>, \<^verbatim>\<open>_ratios(r,G)\<close> and \<^verbatim>\<open>source_residuals(r,G)\<close> are declared in a
  header that is not among the sources. The arrays are indexed by FSR and group and stored
  row by row, as \<^verbatim>\<open>absorption_rates[r*_num_groups+e]\<close> is in the source.
\<close>

definition idx :: "solver \<Rightarrow> nat \<Rightarrow> nat \<Rightarrow> nat" where
  "idx s r e = nat (int r * num_groups s + int e)"

text \<open>
  The groups that the two nested loops
  \<^verbatim>\<open>for (v=0; v < _num_vector_lengths; v++) for (e=v*VEC_LENGTH; e < (v+1)*VEC_LENGTH; e++)\<close>
  visit, in order. The macro \<^verbatim>\<open>VEC_LENGTH\<close> is not defined in the sources and is a
  parameter.
\<close>

definition vector_groups :: "int \<Rightarrow> solver \<Rightarrow> nat list" where
  "vector_groups VEC_LENGTH s =
     concat (map (\<lambda>v. [nat (int v * VEC_LENGTH) ..< nat ((int v + 1) * VEC_LENGTH)])
       [0 ..< nat (num_vector_lengths s)])"

text \<open>\<^verbatim>\<open>cblas_sasum\<close> and \<^verbatim>\<open>cblas_dasum\<close> with increment 1: the sum of the absolute values.\<close>

definition asum :: "int \<Rightarrow> array \<Rightarrow> real" where
  "asum n x = (\<Sum>i<nat n. \<bar>x i\<bar>)"

subsection \<open>computeKeff\<close>

text \<open>The body of the innermost loop of \<^verbatim>\<open>computeKeff\<close> for FSR \<open>r\<close> and group \<open>e\<close>.\<close>

definition rates_step :: "solver \<Rightarrow> nat \<Rightarrow> nat \<Rightarrow> array \<times> array \<Rightarrow> array \<times> array" where
  "rates_step s r e rates =
     (let volume = FSR_volumes s r;
          material = FSR_materials s r;
          absorption_rates = fst rates;
          fission_rates = snd rates
      in (absorption_rates(idx s r e := sigma_a material e * scalar_flux s (idx s r e) * volume),
          fission_rates(idx s r e := nu_sigma_f material e * scalar_flux s (idx s r e) * volume)))"

text \<open>
  \<^verbatim>\<open>VectorizedSolver::computeKeff\<close>. \<open>a0\<close> and \<open>f0\<close> are the contents of the two freshly
  allocated rate arrays. The leakage is reduced by \<^verbatim>\<open>cblas_sasum\<close> in both branches of the
  \<^verbatim>\<open>#ifdef SINGLE\<close>; the model is the build in which that routine matches the precision
  of the array. A zero denominator is the error \<open>NonFinite\<close>.
\<close>

definition computeKeff :: "int \<Rightarrow> array \<Rightarrow> array \<Rightarrow> solver \<Rightarrow> error + solver" where
  "computeKeff VEC_LENGTH a0 f0 s =
     (let rates = fold (\<lambda>r. fold (rates_step s r) (vector_groups VEC_LENGTH s))
                    [0 ..< nat (num_FSRs s)] (a0, f0);
          tot_abs = asum (num_FSRs s * num_groups s) (fst rates);
          tot_fission = asum (num_FSRs s * num_groups s) (snd rates);
          leak = asum (2 * tot_num_tracks s * polar_times_groups s) (boundary_leakage s) * (1 / 2)
      in if tot_abs + leak = 0 then Inl NonFinite
         else Inr (s\<lparr>leakage := leak, k_eff := tot_fission / (tot_abs + leak)\<rparr>))"

subsection \<open>computeFSRSources\<close>

text \<open>Modelled from the spec: \<^verbatim>\<open>ONE_OVER_FOUR_PI\<close> is \<open>1/(4\<pi>)\<close>; its definition is not among the sources.\<close>

definition ONE_OVER_FOUR_PI :: real where
  "ONE_OVER_FOUR_PI = 1 / (4 * pi)"

text \<open>
  The arrays that the loops of \<^verbatim>\<open>computeFSRSources\<close> write. No division of the function
  is guarded, so the sources, the ratios and the residuals can leave the finite numbers;
  the products of a flux and a cross-section in \<^verbatim>\<open>scatter_sources\<close> cannot.
\<close>

record source_arrays =
  a_source :: fp_array
  a_old_source :: fp_array
  a_ratios :: fp_array
  a_residuals :: fp_array
  a_scatter :: array

text \<open>
  \<^verbatim>\<open>cblas_sasum\<close> and \<^verbatim>\<open>cblas_dasum\<close> on such an array: the absolute values are added
  from the first entry on.
\<close>

definition fp_asum :: "int \<Rightarrow> fp_array \<Rightarrow> fp" where
  "fp_asum n x = fold (\<lambda>i acc. acc + \<bar>x i\<bar>) [0 ..< nat n] (Finite 0)"

text \<open>The loop that fills \<^verbatim>\<open>fission_sources\<close> for FSR \<open>r\<close>.\<close>

definition fission_step :: "solver \<Rightarrow> nat \<Rightarrow> nat \<Rightarrow> array \<Rightarrow> array" where
  "fission_step s r e fission_sources =
     fission_sources(e := scalar_flux s (idx s r e) * nu_sigma_f (FSR_materials s r) e)"

text \<open>The loop that fills \<^verbatim>\<open>scatter_sources\<close> for FSR \<open>r\<close> and group \<open>G\<close>.\<close>

definition scatter_step :: "solver \<Rightarrow> nat \<Rightarrow> nat \<Rightarrow> nat \<Rightarrow> array \<Rightarrow> array" where
  "scatter_step s r G g scatter_sources =
     scatter_sources(g := sigma_s (FSR_materials s r) (idx s G g) * scalar_flux s (idx s r g))"

text \<open>
  The body of the loop over \<open>G\<close>: the total source, the ratio, the residual entry
  (written only if the source exceeds \<open>1e-10\<close> in absolute value; \<^verbatim>\<open>pow(x, 2)\<close> is the
  product \<open>x * x\<close>) and the copy into \<^verbatim>\<open>_old_source\<close>.
\<close>

definition group_step :: "int \<Rightarrow> solver \<Rightarrow> nat \<Rightarrow> real \<Rightarrow> nat \<Rightarrow> source_arrays \<Rightarrow> source_arrays" where
  "group_step VEC_LENGTH s r fission_source G arrs =
     (let material = FSR_materials s r;
          scatter_sources = fold (scatter_step s r G) (vector_groups VEC_LENGTH s) (a_scatter arrs);
          scatter_source = asum (num_groups s) scatter_sources;
          q = (Finite 1 / Finite (k_eff s) * Finite fission_source * Finite (chi material G)
                 + Finite scatter_source) * Finite ONE_OVER_FOUR_PI;
          i = idx s r G
      in \<lparr>a_source = (a_source arrs)(i := q),
          a_old_source = (a_old_source arrs)(i := q),
          a_ratios = (a_ratios arrs)(i := q / Finite (sigma_t material G)),
          a_residuals =
            (if \<bar>q\<bar> > Finite (1 / 10 ^ 10)
             then (a_residuals arrs)
                    (i := ((q - a_old_source arrs i) / q) * ((q - a_old_source arrs i) / q))
             else a_residuals arrs),
          a_scatter = scatter_sources\<rparr>)"

text \<open>
  The body of the loop over the FSRs. \<open>fs0 r\<close> and \<open>ss0 r\<close> are the contents of the
  arrays \<^verbatim>\<open>fission_sources\<close> and \<^verbatim>\<open>scatter_sources\<close> that the iteration for \<open>r\<close>
  allocates.
\<close>

definition fsr_step :: "int \<Rightarrow> solver \<Rightarrow> (nat \<Rightarrow> array) \<Rightarrow> (nat \<Rightarrow> array) \<Rightarrow> nat \<Rightarrow> source_arrays \<Rightarrow>
    source_arrays" where
  "fsr_step VEC_LENGTH s fs0 ss0 r arrs =
     (let fission_sources = fold (fission_step s r) (vector_groups VEC_LENGTH s) (fs0 r);
          fission_source = asum (num_groups s) fission_sources
      in fold (group_step VEC_LENGTH s r fission_source) [0 ..< nat (num_groups s)]
           (arrs\<lparr>a_scatter := ss0 r\<rparr>))"

text \<open>
  \<^verbatim>\<open>VectorizedSolver::computeFSRSources\<close>: the residual and the solver. \<open>res0\<close> is the
  content of the freshly allocated array \<^verbatim>\<open>source_residuals\<close>.
\<close>

definition computeFSRSources :: "int \<Rightarrow> fp_array \<Rightarrow> (nat \<Rightarrow> array) \<Rightarrow> (nat \<Rightarrow> array) \<Rightarrow> solver \<Rightarrow>
    fp \<times> solver" where
  "computeFSRSources VEC_LENGTH res0 fs0 ss0 s =
     (let arrs = fold (fsr_step VEC_LENGTH s fs0 ss0) [0 ..< nat (num_FSRs s)]
             \<lparr>a_source = source s, a_old_source = old_source s, a_ratios = ratios s,
              a_residuals = res0, a_scatter = (\<lambda>_. 0)\<rparr>;
          source_residual = fp_asum (num_FSRs s * num_groups s) (a_residuals arrs)
      in (fp_sqrt (source_residual / Finite (real_of_int (num_FSRs s))),
          s\<lparr>source := a_source arrs, old_source := a_old_source arrs,
            ratios := a_ratios arrs\<rparr>))"

section \<open>Example objects\<close>

text \<open>
  The solver as \<^verbatim>\<open>VectorizedSolver::VectorizedSolver\<close> leaves it without a geometry: the
  two defaults of the constructor (vector length 8, alignment 16); the fields that the
  base class initialises outside the sources are zero.
\<close>

definition zero_material :: Material where
  "zero_material = \<lparr>sigma_t = (\<lambda>_. 0), sigma_a = (\<lambda>_. 0), nu_sigma_f = (\<lambda>_. 0),
     chi = (\<lambda>_. 0), sigma_s = (\<lambda>_. 0)\<rparr>"

definition initial_solver :: solver where
  "initial_solver =
     \<lparr>num_FSRs = 0, num_groups = 0, num_polar = 0, polar_times_groups = 0, tot_num_tracks = 0,
      vector_length = 8, vector_alignment = 16, num_vector_lengths = 0,
      FSR_volumes = (\<lambda>_. 0), FSR_materials = (\<lambda>_. zero_material),
      scalar_flux = (\<lambda>_. 0), source = (\<lambda>_. Finite 0), old_source = (\<lambda>_. Finite 0),
      ratios = (\<lambda>_. Finite 0),
      boundary_leakage = (\<lambda>_. 0), k_eff = 0, leakage = 0\<rparr>"

text \<open>
  A fuel pin: the Circle of radius 1 around the origin with the user id 1, and the cell
  that \<^verbatim>\<open>CellBasic(0, 1, rings, sectors)\<close> followed by \<^verbatim>\<open>addSurface(-1, circle)\<close> builds
  from the initial statics; \<open>pin_globals\<close> are the statics after the two constructors.
\<close>

definition pin_circle :: Surface where
  "pin_circle =
     \<lparr>s_uid = 0, s_id = 1, surface_type = CIRCLE, boundary_type = BOUNDARY_NONE,
      coef_A = 1, coef_B = 1, coef_C = 0, coef_D = 0, coef_E = - 1,
      radius = 1, center_x = 0, center_y = 0\<rparr>"

definition pin_cell :: "int \<Rightarrow> int \<Rightarrow> CellBasic" where
  "pin_cell n_rings n_sectors =
     CellBasic \<lparr>c_uid = 0, c_id = 10000, cell_type = MATERIAL, universe = 0,
        surfaces = [(1, \<lparr>surface = pin_circle, halfspace = - 1\<rparr>)], material = 1,
        num_rings = n_rings, num_sectors = n_sectors\<rparr> [] [] []"

definition pin_globals :: globals where
  "pin_globals =
     \<lparr>surf_auto_id = 10001, surf_n = 1, cell_auto_id = 10001, cell_n = 1, messages = []\<rparr>"

text \<open>
  The pin cell with a second Circle of radius 2 bound as its inner Circle (halfspace
  \<open>1\<close>): the outer radius is below the inner one.
\<close>

definition big_circle :: Surface where
  "big_circle =
     \<lparr>s_uid = 1, s_id = 2, surface_type = CIRCLE, boundary_type = BOUNDARY_NONE,
      coef_A = 1, coef_B = 1, coef_C = 0, coef_D = 0, coef_E = - 4,
      radius = 2, center_x = 0, center_y = 0\<rparr>"

definition hollow_cell :: CellBasic where
  "hollow_cell =
     CellBasic \<lparr>c_uid = 0, c_id = 10000, cell_type = MATERIAL, universe = 0,
        surfaces = [(1, \<lparr>surface = pin_circle, halfspace = - 1\<rparr>),
                    (2, \<lparr>surface = big_circle, halfspace = 1\<rparr>)],
        material = 1, num_rings = 2, num_sectors = 0\<rparr> [] [] []"

text \<open>The pin cell with two inner Circles, of radius 1/2 and 1/4: three Circles in all.\<close>

definition half_circle :: Surface where
  "half_circle =
     \<lparr>s_uid = 1, s_id = 2, surface_type = CIRCLE, boundary_type = BOUNDARY_NONE,
      coef_A = 1, coef_B = 1, coef_C = 0, coef_D = 0, coef_E = - (1 / 4),
      radius = 1 / 2, center_x = 0, center_y = 0\<rparr>"

definition quarter_circle :: Surface where
  "quarter_circle =
     \<lparr>s_uid = 2, s_id = 3, surface_type = CIRCLE, boundary_type = BOUNDARY_NONE,
      coef_A = 1, coef_B = 1, coef_C = 0, coef_D = 0, coef_E = - (1 / 16),
      radius = 1 / 4, center_x = 0, center_y = 0\<rparr>"

definition crowded_cell :: CellBasic where
  "crowded_cell =
     CellBasic \<lparr>c_uid = 0, c_id = 10000, cell_type = MATERIAL, universe = 0,
        surfaces = [(1, \<lparr>surface = pin_circle, halfspace = - 1\<rparr>),
                    (2, \<lparr>surface = half_circle, halfspace = 1\<rparr>),
                    (3, \<lparr>surface = quarter_circle, halfspace = 1\<rparr>)],
        material = 1, num_rings = 1, num_sectors = 0\<rparr> [] [] []"

text \<open>
  A solver with two FSRs and two groups in one vector of length 2, one track with one
  polar angle; every cross-section, flux, volume and leakage entry is 1.
\<close>

definition unit_material :: Material where
  "unit_material = \<lparr>sigma_t = (\<lambda>_. 1), sigma_a = (\<lambda>_. 1), nu_sigma_f = (\<lambda>_. 1),
     chi = (\<lambda>_. 1), sigma_s = (\<lambda>_. 1)\<rparr>"

definition example_solver :: solver where
  "example_solver =
     \<lparr>num_FSRs = 2, num_groups = 2, num_polar = 1, polar_times_groups = 2, tot_num_tracks = 1,
      vector_length = 2, vector_alignment = 16, num_vector_lengths = 1,
      FSR_volumes = (\<lambda>_. 1), FSR_materials = (\<lambda>_. unit_material),
      scalar_flux = (\<lambda>_. 1), source = (\<lambda>_. Finite 0), old_source = (\<lambda>_. Finite 1),
      ratios = (\<lambda>_. Finite 0),
      boundary_leakage = (\<lambda>_. 1), k_eff = 1, leakage = 0\<rparr>"

text \<open>
  The example solver with no flux.
\<close>

definition dark_solver :: solver where
  "dark_solver = example_solver\<lparr>scalar_flux := (\<lambda>_. 0)\<rparr>"

text \<open>
  A buffer of two Points at the origin, and the plane \<open>z = 1\<close> with the user id 2, as
  \<^verbatim>\<open>ZPlane(1, 2)\<close> builds it from the initial statics.
\<close>

definition origin_points :: "Point \<times> Point" where
  "origin_points = (\<lparr>px = Finite 0, py = Finite 0\<rparr>, \<lparr>px = Finite 0, py = Finite 0\<rparr>)"

definition level_plane :: Surface where
  "level_plane =
     \<lparr>s_uid = 0, s_id = 2, surface_type = ZPLANE, boundary_type = BOUNDARY_NONE,
      coef_A = 0, coef_B = 0, coef_C = - 1, coef_D = 0, coef_E = 0,
      radius = 0, center_x = 0, center_y = 0\<rparr>"

section \<open>Closed forms used in the statements\<close>

text \<open>
  The definitions of this section are not translations of the source: they say, in the
  words of the spec, what the constructors and the subdivision leave behind, and the
  theorems compare the source with them.
\<close>

definition cell_inv :: "CellBasic \<Rightarrow> bool" where
  "cell_inv c \<longleftrightarrow>
     sorted_wrt (<) (map fst (surfaces (core c)))
     \<and> list_all (\<lambda>entry. fst entry = s_id (surface (snd entry))
                    \<and> (halfspace (snd entry) = 1 \<or> halfspace (snd entry) = - 1))
          (surfaces (core c))
     \<and> 0 \<le> num_rings (core c) \<and> 0 \<le> num_sectors (core c) \<and> num_sectors (core c) \<noteq> 1"

definition cloned :: "CellBasic \<Rightarrow> globals \<Rightarrow> CellBasic" where
  "cloned c g =
     CellBasic ((core c)\<lparr>c_uid := cell_n g, c_id := cell_auto_id g, cell_type := MATERIAL\<rparr>) [] [] []"

definition after_cells :: "int \<Rightarrow> globals \<Rightarrow> globals" where
  "after_cells k g = g\<lparr>cell_auto_id := cell_auto_id g + k, cell_n := cell_n g + k\<rparr>"

definition after_surfaces :: "int \<Rightarrow> globals \<Rightarrow> globals" where
  "after_surfaces k g = g\<lparr>surf_auto_id := surf_auto_id g + k, surf_n := surf_n g + k\<rparr>"

definition spec_sector_plane :: "int \<Rightarrow> globals \<Rightarrow> nat \<Rightarrow> Surface" where
  "spec_sector_plane n g i =
     \<lparr>s_uid = surf_n g + int i, s_id = surf_auto_id g + int i, surface_type = PLANE,
      boundary_type = BOUNDARY_NONE,
      coef_A = cos (real i * (2 * pi / real_of_int n)),
      coef_B = sin (real i * (2 * pi / real_of_int n)),
      coef_C = 0, coef_D = 0, coef_E = 0, radius = 0, center_x = 0, center_y = 0\<rparr>"

definition spec_sector_cell :: "CellBasic \<Rightarrow> globals \<Rightarrow> nat \<Rightarrow> CellBasic" where
  "spec_sector_cell c g i =
     (let n = nat (num_sectors (core c));
          plane = spec_sector_plane (num_sectors (core c)) g;
          plus = map_assign (s_id (plane i)) \<lparr>surface = plane i, halfspace = 1\<rparr> (surfaces (core c));
          bounds = (if n = 2 then plus
                    else map_assign (s_id (plane ((i + 1) mod n)))
                           \<lparr>surface = plane ((i + 1) mod n), halfspace = - 1\<rparr> plus)
      in CellBasic ((core c)\<lparr>c_uid := cell_n g + int i, c_id := cell_auto_id g + int i,
            cell_type := MATERIAL, surfaces := bounds, num_rings := 0, num_sectors := 0\<rparr>)
           [] [] [])"

fun spec_ring_radius :: "real \<Rightarrow> real \<Rightarrow> nat \<Rightarrow> real" where
  "spec_ring_radius R A 0 = R"
| "spec_ring_radius R A (Suc k) = sqrt ((spec_ring_radius R A k)\<^sup>2 - A / pi)"

definition spec_ring_circle :: "real \<Rightarrow> real \<Rightarrow> real \<Rightarrow> real \<Rightarrow> globals \<Rightarrow> nat \<Rightarrow> Surface" where
  "spec_ring_circle cx cy R A g k =
     \<lparr>s_uid = surf_n g + int k, s_id = surf_auto_id g + int k, surface_type = CIRCLE,
      boundary_type = BOUNDARY_NONE, coef_A = 1, coef_B = 1, coef_C = - 2 * cx,
      coef_D = - 2 * cy,
      coef_E = cx * cx + cy * cy - spec_ring_radius R A k * spec_ring_radius R A k,
      radius = spec_ring_radius R A k, center_x = cx, center_y = cy\<rparr>"

definition spec_ring_cell :: "Surface list \<Rightarrow> CellBasic \<Rightarrow> nat \<Rightarrow> int \<Rightarrow> int \<Rightarrow> CellBasic" where
  "spec_ring_cell circles src k ident uid =
     (let outer = map_assign (s_id (circles ! k)) \<lparr>surface = circles ! k, halfspace = - 1\<rparr>
                    (surfaces (core src));
          bounds = (if k + 1 = length circles then outer
                    else map_assign (s_id (circles ! (k + 1)))
                           \<lparr>surface = circles ! (k + 1), halfspace = 1\<rparr> outer)
      in CellBasic ((core src)\<lparr>c_uid := uid, c_id := ident, cell_type := MATERIAL,
            surfaces := bounds, num_rings := 0, num_sectors := 0\<rparr>) [] [] [])"

definition ring_sources :: "CellBasic \<Rightarrow> CellBasic list" where
  "ring_sources c = (if sectors c = [] then [c] else sectors c)"

definition spec_ring_row :: "Surface list \<Rightarrow> CellBasic list \<Rightarrow> globals \<Rightarrow> nat \<Rightarrow> CellBasic list" where
  "spec_ring_row circles srcs g k =
     map (\<lambda>j. spec_ring_cell circles (srcs ! j) k
                (cell_auto_id g + int (k * length srcs + j))
                (cell_n g + int (k * length srcs + j)))
       [0 ..< length srcs]"

definition spec_ring_cells :: "Surface list \<Rightarrow> CellBasic list \<Rightarrow> globals \<Rightarrow> CellBasic list" where
  "spec_ring_cells circles srcs g =
     concat (map (spec_ring_row circles srcs g) [0 ..< length circles])"

definition circle_bounds :: "CellBasic \<Rightarrow> surface_halfspace list" where
  "circle_bounds c =
     filter (\<lambda>sh. surface_type (surface sh) = CIRCLE) (map snd (surfaces (core c)))"

definition annulus :: "CellBasic \<Rightarrow> Surface \<Rightarrow> Surface option \<Rightarrow> bool" where
  "annulus c outer inner \<longleftrightarrow>
     (case inner of
        None \<Rightarrow> circle_bounds c = [\<lparr>surface = outer, halfspace = - 1\<rparr>]
      | Some i \<Rightarrow>
          (circle_bounds c = [\<lparr>surface = outer, halfspace = - 1\<rparr>, \<lparr>surface = i, halfspace = 1\<rparr>]
           \<or> circle_bounds c = [\<lparr>surface = i, halfspace = 1\<rparr>, \<lparr>surface = outer, halfspace = - 1\<rparr>])
          \<and> center_x i = center_x outer \<and> center_y i = center_y outer)"

definition inner_radius :: "Surface option \<Rightarrow> real" where
  "inner_radius inner = (case inner of None \<Rightarrow> 0 | Some i \<Rightarrow> radius i)"

definition ring_area :: "real \<Rightarrow> real \<Rightarrow> real \<Rightarrow> nat \<Rightarrow> nat \<Rightarrow> real" where
  "ring_area R_out R_in A n k =
     pi * ((spec_ring_radius R_out A k)\<^sup>2
           - (if k + 1 < n then (spec_ring_radius R_out A (k + 1))\<^sup>2 else R_in\<^sup>2))"

text \<open>The ids of the Surfaces bound to a cell, each with its halfspace.\<close>

definition bindings :: "CellBasic \<Rightarrow> (int \<times> int) list" where
  "bindings c = map (\<lambda>entry. (fst entry, halfspace (snd entry))) (surfaces (core c))"

text \<open>
  The pin cell with two sectors and no rings after \<open>subdivideCell\<close>, the statics then,
  and the same cell after \<open>setNumSectors 0\<close>.
\<close>

definition subdivided_pin :: CellBasic where
  "subdivided_pin =
     CellBasic (core (pin_cell 0 2)) []
       (map (spec_sector_cell (pin_cell 0 2) pin_globals) [0 ..< 2])
       (map (spec_sector_cell (pin_cell 0 2) pin_globals) [0 ..< 2])"

definition subdivided_globals :: globals where
  "subdivided_globals = after_cells 2 (after_surfaces 2 pin_globals)"

definition stale_cell :: CellBasic where
  "stale_cell =
     CellBasic ((core (pin_cell 0 2))\<lparr>num_sectors := 0\<rparr>) []
       (map (spec_sector_cell (pin_cell 0 2) pin_globals) [0 ..< 2])
       (map (spec_sector_cell (pin_cell 0 2) pin_globals) [0 ..< 2])"

text \<open>
  The reductions of \<open>computeKeff\<close>: the volume-weighted fission and absorption rates
  and the leakage, as sums of absolute values.
\<close>

definition spec_fission_rate :: "solver \<Rightarrow> real" where
  "spec_fission_rate s =
     (\<Sum>r<nat (num_FSRs s). \<Sum>e<nat (num_groups s).
        \<bar>nu_sigma_f (FSR_materials s r) e * scalar_flux s (r * nat (num_groups s) + e)
           * FSR_volumes s r\<bar>)"

definition spec_absorption_rate :: "solver \<Rightarrow> real" where
  "spec_absorption_rate s =
     (\<Sum>r<nat (num_FSRs s). \<Sum>e<nat (num_groups s).
        \<bar>sigma_a (FSR_materials s r) e * scalar_flux s (r * nat (num_groups s) + e)
           * FSR_volumes s r\<bar>)"

definition spec_leakage :: "solver \<Rightarrow> real" where
  "spec_leakage s =
     (\<Sum>i<nat (2 * tot_num_tracks s * polar_times_groups s). \<bar>boundary_leakage s i\<bar>) / 2"

text \<open>
  The multiplication factor in the words of the claim C1: plain sums, and the leakage
  (half the sum of the leakage array) halved once more in the denominator.
\<close>

definition claimed_keff :: "solver \<Rightarrow> real" where
  "claimed_keff s =
     (\<Sum>r<nat (num_FSRs s). \<Sum>e<nat (num_groups s).
        nu_sigma_f (FSR_materials s r) e * scalar_flux s (r * nat (num_groups s) + e)
          * FSR_volumes s r)
     / ((\<Sum>r<nat (num_FSRs s). \<Sum>e<nat (num_groups s).
          sigma_a (FSR_materials s r) e * scalar_flux s (r * nat (num_groups s) + e)
            * FSR_volumes s r)
        + ((\<Sum>i<nat (2 * tot_num_tracks s * polar_times_groups s). boundary_leakage s i) / 2) / 2)"

text \<open>
  The sources of \<open>computeFSRSources\<close>. The fission source of a region and the scattering
  source into a group are the two reductions as \<^verbatim>\<open>cblas_dasum\<close> computes them, sums of
  absolute values; \<open>spec_Q\<close> is the source of region \<open>r\<close> in group \<open>G\<close>.
\<close>

definition spec_fission_source :: "solver \<Rightarrow> nat \<Rightarrow> real" where
  "spec_fission_source s r =
     (\<Sum>g<nat (num_groups s).
        \<bar>nu_sigma_f (FSR_materials s r) g * scalar_flux s (r * nat (num_groups s) + g)\<bar>)"

definition spec_scatter_source :: "solver \<Rightarrow> nat \<Rightarrow> nat \<Rightarrow> real" where
  "spec_scatter_source s r G =
     (\<Sum>g<nat (num_groups s).
        \<bar>sigma_s (FSR_materials s r) (G * nat (num_groups s) + g)
           * scalar_flux s (r * nat (num_groups s) + g)\<bar>)"

definition spec_Q :: "solver \<Rightarrow> nat \<Rightarrow> nat \<Rightarrow> real" where
  "spec_Q s r G =
     (spec_fission_source s r * chi (FSR_materials s r) G / k_eff s + spec_scatter_source s r G)
     / (4 * pi)"

text \<open>
  The entry \<open>i\<close> of the array of residuals after the call: the square of
  \<open>(Q - Q_old) / Q\<close> where the source passes the threshold, and the content \<open>res0\<close> of
  the fresh array where it does not.
\<close>

definition spec_residual_entry :: "solver \<Rightarrow> fp_array \<Rightarrow> nat \<Rightarrow> fp" where
  "spec_residual_entry s res0 i =
     (let ng = nat (num_groups s); q = spec_Q s (i div ng) (i mod ng)
      in if 1 / 10 ^ 10 < \<bar>q\<bar>
         then ((Finite q - old_source s i) / Finite q) * ((Finite q - old_source s i) / Finite q)
         else res0 i)"

text \<open>
  The two nested loops write the entries in the order of the row-major index
  \<open>i = r * _num_groups + G\<close>. \<open>flat_step\<close> is the body of the loop over \<open>G\<close> as a function
  of that index, on the four arrays it writes (source, old source, ratios, residuals),
  and \<open>sources_written\<close> is these arrays once the first \<open>n\<close> indices are done: the entry
  of the residuals is written only where the source is above the threshold, from the old
  source that the call started with.
\<close>

definition flat_step :: "solver \<Rightarrow> nat \<Rightarrow> fp_array \<times> fp_array \<times> fp_array \<times> fp_array \<Rightarrow>
    fp_array \<times> fp_array \<times> fp_array \<times> fp_array" where
  "flat_step s i t =
     (case t of (src, old, rat, res) \<Rightarrow>
        (let ng = nat (num_groups s); r = i div ng; G = i mod ng; q = spec_Q s r G
         in (src(i := Finite q), old(i := Finite q),
             rat(i := Finite q / Finite (sigma_t (FSR_materials s r) G)),
             if 1 / 10 ^ 10 < \<bar>q\<bar>
             then res(i := ((Finite q - old i) / Finite q) * ((Finite q - old i) / Finite q))
             else res)))"

definition proj4 :: "source_arrays \<Rightarrow> fp_array \<times> fp_array \<times> fp_array \<times> fp_array" where
  "proj4 arrs = (a_source arrs, a_old_source arrs, a_ratios arrs, a_residuals arrs)"

definition sources_written :: "solver \<Rightarrow> nat \<Rightarrow> fp_array \<times> fp_array \<times> fp_array \<times> fp_array \<Rightarrow>
    fp_array \<times> fp_array \<times> fp_array \<times> fp_array" where
  "sources_written s n t =
     (case t of (src, old, rat, res) \<Rightarrow>
        (let ng = nat (num_groups s); q = (\<lambda>i. spec_Q s (i div ng) (i mod ng))
         in (\<lambda>i. if i < n then Finite (q i) else src i,
             \<lambda>i. if i < n then Finite (q i) else old i,
             \<lambda>i. if i < n then Finite (q i) / Finite (sigma_t (FSR_materials s (i div ng)) (i mod ng))
                  else rat i,
             \<lambda>i. if i < n \<and> 1 / 10 ^ 10 < \<bar>q i\<bar>
                  then ((Finite (q i) - old i) / Finite (q i)) * ((Finite (q i) - old i) / Finite (q i))
                  else res i)))"

text \<open>
  What the call leaves behind: the solver with its three arrays, and the residual when
  every source passes the threshold and the old sources are the finite numbers \<open>old\<close>.
\<close>

definition spec_sources :: "solver \<Rightarrow> solver" where
  "spec_sources s =
     (let ng = nat (num_groups s); n = nat (num_FSRs s) * ng;
          q = (\<lambda>i. spec_Q s (i div ng) (i mod ng))
      in s\<lparr>source := (\<lambda>i. if i < n then Finite (q i) else source s i),
           old_source := (\<lambda>i. if i < n then Finite (q i) else old_source s i),
           ratios := (\<lambda>i. if i < n
                          then Finite (q i) / Finite (sigma_t (FSR_materials s (i div ng)) (i mod ng))
                          else ratios s i)\<rparr>)"

definition spec_residual :: "solver \<Rightarrow> array \<Rightarrow> real" where
  "spec_residual s old =
     sqrt ((\<Sum>r<nat (num_FSRs s). \<Sum>G<nat (num_groups s).
              ((spec_Q s r G - old (r * nat (num_groups s) + G)) / spec_Q s r G)\<^sup>2)
           / real_of_int (num_FSRs s))"

text \<open>
  The source in the words of the claim C3: plain sums.
\<close>

definition claimed_Q :: "solver \<Rightarrow> nat \<Rightarrow> nat \<Rightarrow> real" where
  "claimed_Q s r G =
     ((\<Sum>g<nat (num_groups s).
         nu_sigma_f (FSR_materials s r) g * scalar_flux s (r * nat (num_groups s) + g))
        * chi (FSR_materials s r) G / k_eff s
      + (\<Sum>g<nat (num_groups s).
           sigma_s (FSR_materials s r) (G * nat (num_groups s) + g)
             * scalar_flux s (r * nat (num_groups s) + g)))
     / (4 * pi)"

text \<open>
  The intersections. The Points that a call reports are the first \<open>num\<close> Points of the
  buffer; a Point is forward of the start of the track when it passes the test on \<open>y\<close>
  that follows every \<^verbatim>\<open>setCoords\<close>. \<open>sloped_discriminant\<close> is the discriminant that
  \<^verbatim>\<open>Circle::intersection\<close> computes for a Circle and a track that is not vertical, from
  the finite start \<open>(x0, y0)\<close>.
\<close>

definition reported :: "int \<times> Point \<times> Point \<Rightarrow> Point list" where
  "reported res = take (nat (fst res)) [fst (snd res), snd (snd res)]"

definition forward :: "real \<Rightarrow> Point \<Rightarrow> Point \<Rightarrow> bool" where
  "forward angle point p = (angle < pi \<and> py p > py point \<or> angle > pi \<and> py p < py point)"

definition sloped_discriminant :: "Surface \<Rightarrow> real \<Rightarrow> real \<Rightarrow> real \<Rightarrow> real" where
  "sloped_discriminant s x0 y0 angle =
     (let m = sin angle / cos angle; q = y0 - m * x0;
          a = 1 + m * m;
          b = 2 * m * q + coef_C s + coef_D s * m;
          c = q * q + coef_D s * q + coef_E s
      in b * b - 4 * a * c)"

section \<open>Properties of the std::map model\<close>

lemma map_of_map_assign: "map_of (map_assign k v m) = (map_of m)(k \<mapsto> v)"
  by (induction m) (auto simp: fun_eq_iff)

lemma keys_map_assign: "set (map fst (map_assign k v m)) = insert k (set (map fst m))"
proof (induction m)
  case Nil
  show ?case by simp
next
  case (Cons a m)
  obtain k' v' where a: "a = (k', v')" by (cases a)
  show ?case unfolding a using Cons by (cases "k < k'"; cases "k = k'") (simp_all add: insert_commute)
qed

lemma sorted_map_assign:
  "sorted_wrt (<) (map fst m) \<Longrightarrow> sorted_wrt (<) (map fst (map_assign k v m))"
proof (induction m)
  case Nil
  then show ?case by simp
next
  case (Cons a m)
  obtain k' v' where a: "a = (k', v')" by (cases a)
  have keys: "set (map fst (map_assign k v m)) = insert k (set (map fst m))"
    by (rule keys_map_assign)
  show ?case using Cons a keys by (auto simp: less_le_trans)
qed

lemma length_map_assign:
  "sorted_wrt (<) (map fst m) \<Longrightarrow>
   length (map_assign k v m) = (if k \<in> set (map fst m) then length m else Suc (length m))"
  by (induction m) (auto simp: rev_image_eqI)

lemma length_sorted_map:
  fixes m :: "(int \<times> 'v) list"
  shows "sorted_wrt (<) (map fst m) \<Longrightarrow> length m = card (dom (map_of m))"
proof -
  assume "sorted_wrt (<) (map fst m)"
  then have "distinct (map fst m)" by (simp add: strict_sorted_iff)
  then have "card (set (map fst m)) = length m" using distinct_card by fastforce
  then show ?thesis by (simp add: dom_map_of_conv_image_fst)
qed

section \<open>Loops, clones, sectors and rings\<close>

lemma iterate_append:
  "iterate f (xs @ ys) st = (case iterate f xs st of Inl e \<Rightarrow> Inl e | Inr st1 \<Rightarrow> iterate f ys st1)"
  by (induction xs arbitrary: st) (auto split: sum.splits)

lemma iterate_closed:
  assumes "\<And>i. i < length xs \<Longrightarrow> f (xs ! i) (F i) = Inr (F (Suc i))"
  shows "iterate f xs (F 0) = Inr (F (length xs))"
  using assms
proof (induction xs arbitrary: F)
  case Nil
  show ?case by simp
next
  case (Cons x xs)
  have first: "f x (F 0) = Inr (F (Suc 0))" using Cons.prems [of 0] by simp
  have rest: "iterate f xs (F (Suc 0)) = Inr (F (Suc (length xs)))"
    using Cons.IH [of "\<lambda>i. F (Suc i)"] Cons.prems by fastforce
  show ?case using first rest by simp
qed

lemma iterate_upt_closed:
  assumes "\<And>i. i < n \<Longrightarrow> f i (F i) = Inr (F (Suc i))"
  shows "iterate f [0 ..< n] (F 0) = Inr (F n)"
  using iterate_closed [of "[0 ..< n]" f F] assms by simp

lemma map_assign_last:
  "\<forall>k' \<in> set (map fst m). k' < k \<Longrightarrow> map_assign k v m = m @ [(k, v)]"
  by (induction m) auto

lemma add_surfaces_sorted:
  assumes "sorted_wrt (<) (map fst (m0 @ m))"
    and "list_all (\<lambda>entry. fst entry = s_id (surface (snd entry))
                    \<and> (halfspace (snd entry) = 1 \<or> halfspace (snd entry) = - 1)) m"
    and "surfaces (core n) = m0"
  shows "add_surfaces m n = Inr (map_fields (\<lambda>f. f\<lparr>surfaces := m0 @ m\<rparr>) n)"
  using assms
proof (induction m arbitrary: m0 n)
  case Nil
  then show ?case by (cases n) (simp add: add_surfaces_def map_fields_def)
next
  case (Cons a m)
  obtain k sh where a: "a = (k, sh)" by (cases a)
  have key: "k = s_id (surface sh)" and hs: "halfspace sh = 1 \<or> halfspace sh = - 1"
    using Cons.prems(2) a by auto
  have less: "\<forall>k' \<in> set (map fst m0). k' < k"
    using Cons.prems(1) a by (auto simp: sorted_wrt_append)
  let ?n1 = "map_fields (\<lambda>f. f\<lparr>surfaces := m0 @ [a]\<rparr>) n"
  have step: "addSurface (halfspace sh) (surface sh) n = Inr ?n1"
    using hs key less Cons.prems(3) a
    by (auto simp: addSurface_def map_fields_def map_assign_last)
  have "add_surfaces m ?n1 = Inr (map_fields (\<lambda>f. f\<lparr>surfaces := (m0 @ [a]) @ m\<rparr>) ?n1)"
    using Cons.IH [of "m0 @ [a]" ?n1] Cons.prems by (simp add: map_fields_def)
  then show ?case using step a by (simp add: add_surfaces_def map_fields_def)
qed

lemma clone_closed:
  assumes "cell_inv c"
  shows "clone c g = Inr (cloned c g, after_cells 1 g)"
proof -
  let ?f = "core c"
  have ctor: "CellBasic_ctor (universe ?f) (material ?f) (num_rings ?f) (num_sectors ?f) 0 g =
      Inr (CellBasic (?f\<lparr>c_uid := cell_n g, c_id := cell_auto_id g, cell_type := MATERIAL,
             surfaces := []\<rparr>) [] [] [], after_cells 1 g)"
    using assms
    by (simp add: CellBasic_ctor_def Cell_ctor_def cell_id_def setNumRings_def setNumSectors_def
        cell_inv_def map_fields_def after_cells_def)
  have add: "add_surfaces (surfaces ?f)
      (CellBasic (?f\<lparr>c_uid := cell_n g, c_id := cell_auto_id g, cell_type := MATERIAL,
             surfaces := []\<rparr>) [] [] []) = Inr (cloned c g)"
    using add_surfaces_sorted [of "[]" "surfaces ?f"] assms
    by (simp add: cell_inv_def map_fields_def cloned_def)
  show ?thesis using ctor add by (simp add: clone_def)
qed

lemma after_zero [simp]: "after_cells 0 g = g" "after_surfaces 0 g = g"
  by (simp_all add: after_cells_def after_surfaces_def)

lemma after_after:
  "after_cells j (after_cells k g) = after_cells (j + k) g"
  "after_surfaces j (after_surfaces k g) = after_surfaces (j + k) g"
  "after_cells j (after_surfaces k g) = after_surfaces k (after_cells j g)"
  by (simp_all add: after_cells_def after_surfaces_def)

lemma after_fields [simp]:
  "cell_auto_id (after_cells k g) = cell_auto_id g + k"
  "cell_n (after_cells k g) = cell_n g + k"
  "surf_auto_id (after_cells k g) = surf_auto_id g"
  "surf_n (after_cells k g) = surf_n g"
  "messages (after_cells k g) = messages g"
  "surf_auto_id (after_surfaces k g) = surf_auto_id g + k"
  "surf_n (after_surfaces k g) = surf_n g + k"
  "cell_auto_id (after_surfaces k g) = cell_auto_id g"
  "cell_n (after_surfaces k g) = cell_n g"
  "messages (after_surfaces k g) = messages g"
  by (simp_all add: after_cells_def after_surfaces_def)

lemma Plane_ctor_auto:
  "Plane_ctor a b c 0 g =
     Inr (\<lparr>s_uid = surf_n g, s_id = surf_auto_id g, surface_type = PLANE,
           boundary_type = BOUNDARY_NONE, coef_A = a, coef_B = b, coef_C = c, coef_D = 0,
           coef_E = 0, radius = 0, center_x = 0, center_y = 0\<rparr>, after_surfaces 1 g)"
  by (simp add: Plane_ctor_def Surface_ctor_def surf_id_def after_surfaces_def)

lemma Circle_ctor_auto:
  "Circle_ctor x y r 0 g =
     Inr (\<lparr>s_uid = surf_n g, s_id = surf_auto_id g, surface_type = CIRCLE,
           boundary_type = BOUNDARY_NONE, coef_A = 1, coef_B = 1, coef_C = - 2 * x,
           coef_D = - 2 * y, coef_E = x * x + y * y - r * r, radius = r, center_x = x,
           center_y = y\<rparr>, after_surfaces 1 g)"
  by (simp add: Circle_ctor_def Surface_ctor_def surf_id_def after_surfaces_def)

lemma create_planes_closed:
  "iterate (create_plane (2 * pi / real_of_int n)) [0 ..< k] ([], g) =
     Inr (map (spec_sector_plane n g) [0 ..< k], after_surfaces (int k) g)"
proof -
  let ?F = "\<lambda>i. (map (spec_sector_plane n g) [0 ..< i], after_surfaces (int i) g)"
  have step: "create_plane (2 * pi / real_of_int n) i (?F i) = Inr (?F (Suc i))" for i
    by (simp add: create_plane_def Plane_ctor_auto spec_sector_plane_def after_after Let_def
        add.commute [of "int i"])
  have "iterate (create_plane (2 * pi / real_of_int n)) [0 ..< k] (?F 0) = Inr (?F k)"
    by (rule iterate_upt_closed) (rule step)
  then show ?thesis by simp
qed

lemma next_sector_index:
  assumes "i < n"
  shows "(if int i + 1 < int n then i + 1 else 0) = (i + 1) mod n"
proof (cases "i + 1 < n")
  case True
  then show ?thesis by simp
next
  case False
  then have "i + 1 = n" using assms by simp
  then show ?thesis by auto
qed

lemma create_sector_closed:
  assumes inv: "cell_inv c" and n: "num_sectors (core c) = int n" and i: "i < n" and n2: "2 \<le> n"
    and planes: "planes = map (spec_sector_plane (int n) g0) [0 ..< n]"
    and g: "cell_auto_id g0 = cell_auto_id g" "cell_n g0 = cell_n g"
  shows "create_sector c planes i (secs, after_cells (int i) g) =
     Inr (secs @ [spec_sector_cell c g0 i], after_cells (int (Suc i)) g)"
proof -
  have at_i: "vector_at planes i = Inr (spec_sector_plane (int n) g0 i)"
    using i planes by (simp add: vector_at_def)
  have nxt: "(if int i + 1 < int n then i + 1 else 0) = (i + 1) mod n"
    using i by (rule next_sector_index)
  have at_n: "vector_at planes ((i + 1) mod n) = Inr (spec_sector_plane (int n) g0 ((i + 1) mod n))"
    using i planes by (simp add: vector_at_def)
  have cl: "clone c (after_cells (int i) g) =
      Inr (cloned c (after_cells (int i) g), after_cells (int (Suc i)) g)"
    by (simp add: clone_closed [OF inv] after_after)
  let ?s2 = "CellBasic ((core c)\<lparr>c_uid := cell_n g + int i, c_id := cell_auto_id g + int i,
      cell_type := MATERIAL, num_sectors := 0, num_rings := 0\<rparr>) [] [] []"
  have s1: "setNumSectors 0 (cloned c (after_cells (int i) g)) =
      Inr (CellBasic ((core c)\<lparr>c_uid := cell_n g + int i, c_id := cell_auto_id g + int i,
      cell_type := MATERIAL, num_sectors := 0\<rparr>) [] [] [])"
    by (simp add: setNumSectors_def cloned_def map_fields_def)
  have s2: "setNumRings 0 (CellBasic ((core c)\<lparr>c_uid := cell_n g + int i, c_id := cell_auto_id g + int i,
      cell_type := MATERIAL, num_sectors := 0\<rparr>) [] [] []) = Inr ?s2"
    by (simp add: setNumRings_def map_fields_def)
  show ?thesis
    unfolding create_sector_def
    apply (simp only: snd_conv fst_conv cl sum.case prod.case s1 s2 at_i n nxt at_n)
    using n2 g
    by (simp add: map_fields_def addSurface_def spec_sector_cell_def Let_def n)
qed

lemma sectorize_closed:
  assumes inv: "cell_inv c" and n: "num_sectors (core c) = int n" and n2: "2 \<le> n"
  shows "sectorize c g =
     Inr (CellBasic (core c) (rings c) (sectors c @ map (spec_sector_cell c g) [0 ..< n])
            (sectors c @ map (spec_sector_cell c g) [0 ..< n]),
          after_cells (int n) (after_surfaces (int n) g))"
proof -
  let ?g1 = "after_surfaces (int n) g"
  let ?planes = "map (spec_sector_plane (int n) g) [0 ..< n]"
  let ?F = "\<lambda>i. (sectors c @ map (spec_sector_cell c g) [0 ..< i], after_cells (int i) ?g1)"
  have planes: "iterate (create_plane (2 * pi / real n)) [0 ..< n] ([], g) = Inr (?planes, ?g1)"
    using create_planes_closed [of "int n" n g] by simp
  have step: "create_sector c ?planes i (?F i) = Inr (?F (Suc i))" if "i < n" for i
    using create_sector_closed [OF inv n that n2 refl, of g ?g1 "fst (?F i)"] by simp
  have "iterate (create_sector c ?planes) [0 ..< n] (?F 0) = Inr (?F n)"
    by (rule iterate_upt_closed) (rule step)
  then have secs: "iterate (create_sector c ?planes) [0 ..< n] (sectors c, ?g1) = Inr (?F n)"
    by simp
  show ?thesis
    unfolding sectorize_def using n2 by (simp add: n planes secs Let_def del: upt_Suc)
qed

lemma list_all_map_assign:
  "P (k, v) \<Longrightarrow> list_all P m \<Longrightarrow> list_all P (map_assign k v m)"
  by (induction m) auto

lemma cell_inv_sector:
  assumes "cell_inv c"
  shows "cell_inv (spec_sector_cell c g i)"
  using assms
  by (simp add: cell_inv_def spec_sector_cell_def Let_def sorted_map_assign list_all_map_assign)

lemma create_ring_closed:
  assumes inv: "cell_inv src"
  shows "create_ring circles k src (rs, g) =
     Inr (rs @ [spec_ring_cell circles src k (cell_auto_id g) (cell_n g)], after_cells 1 g)"
proof -
  have s1: "setNumSectors 0 (cloned src g) =
      Inr (CellBasic ((core src)\<lparr>c_uid := cell_n g, c_id := cell_auto_id g,
      cell_type := MATERIAL, num_sectors := 0\<rparr>) [] [] [])"
    by (simp add: setNumSectors_def cloned_def map_fields_def)
  have s2: "setNumRings 0 (CellBasic ((core src)\<lparr>c_uid := cell_n g, c_id := cell_auto_id g,
      cell_type := MATERIAL, num_sectors := 0\<rparr>) [] [] []) =
      Inr (CellBasic ((core src)\<lparr>c_uid := cell_n g, c_id := cell_auto_id g,
      cell_type := MATERIAL, num_sectors := 0, num_rings := 0\<rparr>) [] [] [])"
    by (simp add: setNumRings_def map_fields_def)
  show ?thesis
    unfolding create_ring_def
    apply (simp only: snd_conv fst_conv clone_closed [OF inv] sum.case prod.case s1 s2)
    by (simp add: map_fields_def addSurface_def spec_ring_cell_def Let_def)
qed

lemma create_rings_closed:
  assumes inv: "list_all cell_inv (ring_sources c)"
  shows "create_rings c circles k (rs, g) =
     Inr (rs @ map (\<lambda>j. spec_ring_cell circles (ring_sources c ! j) k
                         (cell_auto_id g + int j) (cell_n g + int j))
                 [0 ..< length (ring_sources c)],
          after_cells (int (length (ring_sources c))) g)"
proof (cases "sectors c = []")
  case True
  then have "cell_inv c" using inv by (simp add: ring_sources_def)
  then show ?thesis using True by (simp add: create_rings_def ring_sources_def create_ring_closed)
next
  case False
  let ?srcs = "sectors c"
  let ?F = "\<lambda>i. (rs @ map (\<lambda>j. spec_ring_cell circles (?srcs ! j) k
                         (cell_auto_id g + int j) (cell_n g + int j)) [0 ..< i],
                 after_cells (int i) g)"
  have step: "create_ring circles k (?srcs ! i) (?F i) = Inr (?F (Suc i))" if "i < length ?srcs" for i
  proof -
    have "cell_inv (?srcs ! i)" using inv False that by (simp add: ring_sources_def list_all_length)
    then show ?thesis by (simp add: create_ring_closed after_after)
  qed
  have "iterate (create_ring circles k) ?srcs (?F 0) = Inr (?F (length ?srcs))"
    by (rule iterate_closed) (rule step)
  then show ?thesis using False by (simp add: create_rings_def ring_sources_def)
qed

lemma create_circles_closed:
  assumes nonneg: "\<And>i. i < n \<Longrightarrow> 0 \<le> (spec_ring_radius R A i)\<^sup>2 - A / pi"
  shows "iterate (create_circle cx cy A) [0 ..< n] (R, [], g) =
     Inr (spec_ring_radius R A n, map (spec_ring_circle cx cy R A g) [0 ..< n],
          after_surfaces (int n) g)"
proof -
  let ?F = "\<lambda>i. (spec_ring_radius R A i, map (spec_ring_circle cx cy R A g) [0 ..< i],
                 after_surfaces (int i) g)"
  have step: "create_circle cx cy A i (?F i) = Inr (?F (Suc i))" if "i < n" for i
    using nonneg [OF that]
    by (simp add: create_circle_def Circle_ctor_auto spec_ring_circle_def after_after Let_def
        power2_eq_square add.commute [of "int i"])
  have "iterate (create_circle cx cy A) [0 ..< n] (?F 0) = Inr (?F n)"
    by (rule iterate_upt_closed) (rule step)
  then show ?thesis by simp
qed

lemma create_all_rings_closed:
  assumes inv: "list_all cell_inv (ring_sources c)"
  shows "iterate (create_rings c circles) [0 ..< n] (rs, g) =
     Inr (rs @ concat (map (spec_ring_row circles (ring_sources c) g) [0 ..< n]),
          after_cells (int (n * length (ring_sources c))) g)"
proof -
  let ?m = "length (ring_sources c)"
  let ?F = "\<lambda>k. (rs @ concat (map (spec_ring_row circles (ring_sources c) g) [0 ..< k]),
                 after_cells (int (k * ?m)) g)"
  have step: "create_rings c circles k (?F k) = Inr (?F (Suc k))" for k
    by (simp add: create_rings_closed [OF inv] spec_ring_row_def after_after algebra_simps)
  have "iterate (create_rings c circles) [0 ..< n] (?F 0) = Inr (?F n)"
    by (rule iterate_upt_closed) (rule step)
  then show ?thesis by simp
qed

lemma ringify_closed:
  assumes inv: "list_all cell_inv (ring_sources c)"
    and n: "num_rings (core c) = int n" and n1: "1 \<le> n"
    and sc: "sc = scan_circles (surfaces (core c))"
    and checks: "ringify_checks (c_id (core c)) sc g = Inr g1"
    and area: "A = pi * \<bar>radius1 sc * radius1 sc - radius2 sc * radius2 sc\<bar> / real n"
    and nonneg: "\<And>i. i < n - 1 \<Longrightarrow> 0 \<le> (spec_ring_radius (radius1 sc) A i)\<^sup>2 - A / pi"
    and circles: "circles = map (spec_ring_circle (x1 sc) (y1 sc) (radius1 sc) A g1) [0 ..< n]"
  shows "ringify c g =
     Inr (CellBasic (core c)
            (rings c @ spec_ring_cells circles (ring_sources c) (after_surfaces (int n) g1))
            (sectors c)
            (rings c @ spec_ring_cells circles (ring_sources c) (after_surfaces (int n) g1)),
          after_cells (int (n * length (ring_sources c))) (after_surfaces (int n) g1))"
proof -
  obtain n' where n': "n = Suc n'" using n1 by (cases n) auto
  have loop: "iterate (create_circle (x1 sc) (y1 sc) A) [0 ..< n'] (radius1 sc, [], g1) =
      Inr (spec_ring_radius (radius1 sc) A n',
           map (spec_ring_circle (x1 sc) (y1 sc) (radius1 sc) A g1) [0 ..< n'],
           after_surfaces (int n') g1)"
    using nonneg n' by (intro create_circles_closed) simp
  have last: "Circle_ctor (x1 sc) (y1 sc) (spec_ring_radius (radius1 sc) A n') 0
        (after_surfaces (int n') g1) =
      Inr (spec_ring_circle (x1 sc) (y1 sc) (radius1 sc) A g1 n', after_surfaces (int n) g1)"
    by (simp add: Circle_ctor_auto spec_ring_circle_def after_after n' add.commute [of "int n'"])
  have all: "map (spec_ring_circle (x1 sc) (y1 sc) (radius1 sc) A g1) [0 ..< n'] @
      [spec_ring_circle (x1 sc) (y1 sc) (radius1 sc) A g1 n'] = circles"
    by (simp add: circles n')
  have len: "length circles = n" by (simp add: circles)
  have rings: "iterate (create_rings c circles) [0 ..< n] (rings c, after_surfaces (int n) g1) =
      Inr (rings c @ spec_ring_cells circles (ring_sources c) (after_surfaces (int n) g1),
           after_cells (int (n * length (ring_sources c))) (after_surfaces (int n) g1))"
    by (simp add: create_all_rings_closed [OF inv] spec_ring_cells_def len)
  have nz: "num_rings (core c) \<noteq> 0" using n n1 by simp
  have cnt: "nat (num_rings (core c) - 1) = n'" using n n' by simp
  have area': "pi * \<bar>radius1 sc * radius1 sc - radius2 sc * radius2 sc\<bar>
      / real_of_int (num_rings (core c)) = A"
    by (simp add: area n)
  show ?thesis
    unfolding ringify_def Let_def
    by (simp only: nz if_False sc [symmetric] checks sum.case area' cnt loop prod.case last all
        len rings)
qed

lemma scan_skips_others:
  "foldl scan_step sc xs =
   foldl scan_step sc (filter (\<lambda>sh. surface_type (surface sh) = CIRCLE) xs)"
  by (induction xs arbitrary: sc) (simp_all add: scan_step_def)

lemma scan_circle_bounds: "scan_circles (surfaces (core c)) = foldl scan_step scan_init (circle_bounds c)"
  unfolding scan_circles_def circle_bounds_def by (rule scan_skips_others)

lemma scan_annulus:
  assumes "annulus c outer inner"
  shows "radius1 (scan_circles (surfaces (core c))) = radius outer
    \<and> radius2 (scan_circles (surfaces (core c))) = inner_radius inner
    \<and> x1 (scan_circles (surfaces (core c))) = center_x outer
    \<and> y1 (scan_circles (surfaces (core c))) = center_y outer
    \<and> ringify_checks cid (scan_circles (surfaces (core c))) g =
           (if radius outer \<le> inner_radius inner
            then (if inner = None then Inl NullPointer else Inl (DisjointCircles cid))
            else Inr g)"
proof -
  have circ: "surface_type outer = CIRCLE"
  proof -
    have "\<lparr>surface = outer, halfspace = - 1\<rparr> \<in> set (circle_bounds c)"
      using assms by (auto simp: annulus_def split: option.splits)
    then show ?thesis by (simp add: circle_bounds_def)
  qed
  show ?thesis
  proof (cases inner)
    case None
    then have "circle_bounds c = [\<lparr>surface = outer, halfspace = - 1\<rparr>]"
      using assms by (simp add: annulus_def)
    then show ?thesis
      using None circ
      by (simp add: scan_circle_bounds scan_step_def scan_init_def inner_radius_def
          ringify_checks_def)
  next
    case (Some i)
    have ci: "surface_type i = CIRCLE"
    proof -
      have "\<lparr>surface = i, halfspace = 1\<rparr> \<in> set (circle_bounds c)"
        using assms Some by (auto simp: annulus_def)
      then show ?thesis by (simp add: circle_bounds_def)
    qed
    have centre: "center_x i = center_x outer" "center_y i = center_y outer"
      using assms Some by (simp_all add: annulus_def)
    have "circle_bounds c = [\<lparr>surface = outer, halfspace = - 1\<rparr>, \<lparr>surface = i, halfspace = 1\<rparr>]
           \<or> circle_bounds c = [\<lparr>surface = i, halfspace = 1\<rparr>, \<lparr>surface = outer, halfspace = - 1\<rparr>]"
      using assms Some by (simp add: annulus_def)
    then show ?thesis
    proof
      assume "circle_bounds c = [\<lparr>surface = outer, halfspace = - 1\<rparr>, \<lparr>surface = i, halfspace = 1\<rparr>]"
      then show ?thesis
        using Some circ ci centre
        by (simp add: scan_circle_bounds scan_step_def scan_init_def inner_radius_def
            ringify_checks_def)
    next
      assume "circle_bounds c = [\<lparr>surface = i, halfspace = 1\<rparr>, \<lparr>surface = outer, halfspace = - 1\<rparr>]"
      then show ?thesis
        using Some circ ci centre
        by (simp add: scan_circle_bounds scan_step_def scan_init_def inner_radius_def
            ringify_checks_def)
    qed
  qed
qed

lemma ring_radius_sq:
  assumes "0 \<le> R_in" and "R_in < R_out" and "A = pi * (R_out\<^sup>2 - R_in\<^sup>2) / real n" and "k \<le> n"
  shows "(spec_ring_radius R_out A k)\<^sup>2 = R_out\<^sup>2 - real k * (R_out\<^sup>2 - R_in\<^sup>2) / real n"
  using assms(4)
proof (induction k)
  case 0
  show ?case by simp
next
  case (Suc k)
  have npos: "0 < real n" using Suc.prems by simp
  have diff: "0 \<le> R_out\<^sup>2 - R_in\<^sup>2"
    using assms(1,2) by (simp add: power_mono)
  have Api: "A / pi = (R_out\<^sup>2 - R_in\<^sup>2) / real n"
    using assms(3) by simp
  have prev: "(spec_ring_radius R_out A k)\<^sup>2 = R_out\<^sup>2 - real k * (R_out\<^sup>2 - R_in\<^sup>2) / real n"
    using Suc by simp
  have split: "real (Suc k) * (R_out\<^sup>2 - R_in\<^sup>2) / real n =
      real k * (R_out\<^sup>2 - R_in\<^sup>2) / real n + (R_out\<^sup>2 - R_in\<^sup>2) / real n"
    by (simp add: distrib_right add_divide_distrib)
  have eq: "(spec_ring_radius R_out A k)\<^sup>2 - A / pi =
      R_out\<^sup>2 - real (Suc k) * (R_out\<^sup>2 - R_in\<^sup>2) / real n"
    unfolding prev Api split by simp
  have "real (Suc k) * (R_out\<^sup>2 - R_in\<^sup>2) / real n \<le> R_out\<^sup>2 - R_in\<^sup>2"
  proof -
    have "real (Suc k) * (R_out\<^sup>2 - R_in\<^sup>2) \<le> real n * (R_out\<^sup>2 - R_in\<^sup>2)"
      using Suc.prems diff by (intro mult_right_mono) simp_all
    then show ?thesis using npos by (simp add: field_simps)
  qed
  then have "0 \<le> R_out\<^sup>2 - real (Suc k) * (R_out\<^sup>2 - R_in\<^sup>2) / real n"
    using zero_le_power2 [of R_in] by linarith
  then show ?case using eq by simp
qed

lemma ring_radius_bound:
  assumes "0 \<le> R_in" and "R_in < R_out" and "k \<le> n" and "0 < n"
  shows "R_in\<^sup>2 \<le> R_out\<^sup>2 - real k * (R_out\<^sup>2 - R_in\<^sup>2) / real n"
proof -
  have diff: "0 \<le> R_out\<^sup>2 - R_in\<^sup>2"
    using assms(1,2) by (simp add: power_mono)
  have "real k * (R_out\<^sup>2 - R_in\<^sup>2) \<le> real n * (R_out\<^sup>2 - R_in\<^sup>2)"
    using assms(3) diff by (intro mult_right_mono) simp_all
  then have "real k * (R_out\<^sup>2 - R_in\<^sup>2) / real n \<le> R_out\<^sup>2 - R_in\<^sup>2"
    using assms(4) by (simp add: field_simps)
  then show ?thesis by simp
qed

lemma ring_area_equal:
  assumes "0 \<le> R_in" and "R_in < R_out" and "A = pi * (R_out\<^sup>2 - R_in\<^sup>2) / real n" and "k < n"
  shows "ring_area R_out R_in A n k = A"
proof -
  have npos: "0 < real n" using assms(4) by simp
  have k: "(spec_ring_radius R_out A k)\<^sup>2 = R_out\<^sup>2 - real k * (R_out\<^sup>2 - R_in\<^sup>2) / real n"
    using assms by (intro ring_radius_sq) simp_all
  have split: "real (Suc k) * (R_out\<^sup>2 - R_in\<^sup>2) / real n =
      real k * (R_out\<^sup>2 - R_in\<^sup>2) / real n + (R_out\<^sup>2 - R_in\<^sup>2) / real n"
    by (simp add: distrib_right add_divide_distrib)
  show ?thesis
  proof (cases "k + 1 < n")
    case True
    have "(spec_ring_radius R_out A (Suc k))\<^sup>2 =
        R_out\<^sup>2 - real (Suc k) * (R_out\<^sup>2 - R_in\<^sup>2) / real n"
      using assms True by (intro ring_radius_sq) simp_all
    then have "(spec_ring_radius R_out A k)\<^sup>2 - (spec_ring_radius R_out A (k + 1))\<^sup>2 =
        (R_out\<^sup>2 - R_in\<^sup>2) / real n"
      unfolding k split by simp
    then show ?thesis using True assms(3) by (simp add: ring_area_def)
  next
    case False
    then have last: "real n = real k + 1" using assms(4) by linarith
    have "R_out\<^sup>2 - real k * (R_out\<^sup>2 - R_in\<^sup>2) / real n - R_in\<^sup>2 = (R_out\<^sup>2 - R_in\<^sup>2) / real n"
      using npos unfolding last by (simp add: field_simps)
    then have "(spec_ring_radius R_out A k)\<^sup>2 - R_in\<^sup>2 = (R_out\<^sup>2 - R_in\<^sup>2) / real n"
      unfolding k .
    then show ?thesis using False assms(3) by (simp add: ring_area_def)
  qed
qed

lemma ring_sources_inv:
  assumes "cell_inv c" and "list_all cell_inv (sectors c)"
  shows "list_all cell_inv (ring_sources c)"
  using assms by (simp add: ring_sources_def)

lemma ring_radius_step_nonneg:
  assumes "0 \<le> R_in" and "R_in < R_out" and "A = pi * (R_out\<^sup>2 - R_in\<^sup>2) / real n"
    and "i < n - 1"
  shows "0 \<le> (spec_ring_radius R_out A i)\<^sup>2 - A / pi"
proof -
  have npos: "0 < n" using assms(4) by simp
  have Api: "A / pi = (R_out\<^sup>2 - R_in\<^sup>2) / real n" using assms(3) by simp
  have "(spec_ring_radius R_out A i)\<^sup>2 = R_out\<^sup>2 - real i * (R_out\<^sup>2 - R_in\<^sup>2) / real n"
    using assms by (intro ring_radius_sq) simp_all
  moreover have "real (Suc i) * (R_out\<^sup>2 - R_in\<^sup>2) / real n =
      real i * (R_out\<^sup>2 - R_in\<^sup>2) / real n + (R_out\<^sup>2 - R_in\<^sup>2) / real n"
    by (simp add: distrib_right add_divide_distrib)
  moreover have "R_in\<^sup>2 \<le> R_out\<^sup>2 - real (Suc i) * (R_out\<^sup>2 - R_in\<^sup>2) / real n"
    using assms npos by (intro ring_radius_bound) simp_all
  ultimately have "R_in\<^sup>2 \<le> (spec_ring_radius R_out A i)\<^sup>2 - A / pi"
    unfolding Api by simp
  then show ?thesis using zero_le_power2 [of R_in] by linarith
qed

text \<open>
  \<open>ringify\<close> on a cell whose scan passes the checks with \<open>0 \<le> radius2 < radius1\<close>.
\<close>

lemma ringify_scan_closed:
  assumes inv: "cell_inv c" "list_all cell_inv (sectors c)"
    and n: "num_rings (core c) = int n" "1 \<le> n"
    and sc: "sc = scan_circles (surfaces (core c))"
    and checks: "ringify_checks (c_id (core c)) sc g = Inr g1"
    and radii: "0 \<le> radius2 sc" "radius2 sc < radius1 sc"
    and A: "A = pi * ((radius1 sc)\<^sup>2 - (radius2 sc)\<^sup>2) / real n"
    and circles: "circles = map (spec_ring_circle (x1 sc) (y1 sc) (radius1 sc) A g1) [0 ..< n]"
    and cells: "cells = spec_ring_cells circles (ring_sources c) (after_surfaces (int n) g1)"
  shows "ringify c g =
       Inr (CellBasic (core c) (rings c @ cells) (sectors c) (rings c @ cells),
            after_cells (int (n * length (ring_sources c))) (after_surfaces (int n) g1))"
proof -
  have sq: "(radius2 sc)\<^sup>2 < (radius1 sc)\<^sup>2" using radii by (simp add: power_strict_mono)
  have area: "A = pi * \<bar>radius1 sc * radius1 sc - radius2 sc * radius2 sc\<bar> / real n"
    using sq by (simp add: A power2_eq_square)
  have nonneg: "0 \<le> (spec_ring_radius (radius1 sc) A i)\<^sup>2 - A / pi" if "i < n - 1" for i
    using radii A that by (rule ring_radius_step_nonneg)
  show ?thesis
    unfolding cells
    by (rule ringify_closed [OF ring_sources_inv [OF inv] n sc checks area nonneg circles])
qed

text \<open>The same for a cell bounded by an outer Circle and at most one inner Circle.\<close>

lemma ringify_annulus_closed:
  assumes inv: "cell_inv c" "list_all cell_inv (sectors c)"
    and ann: "annulus c outer inner"
    and radii: "0 \<le> inner_radius inner" "inner_radius inner < radius outer"
    and n: "num_rings (core c) = int n" "1 \<le> n"
    and A: "A = pi * ((radius outer)\<^sup>2 - (inner_radius inner)\<^sup>2) / real n"
    and circles: "circles = map (spec_ring_circle (center_x outer) (center_y outer) (radius outer) A g) [0 ..< n]"
    and cells: "cells = spec_ring_cells circles (ring_sources c) (after_surfaces (int n) g)"
  shows "ringify c g =
       Inr (CellBasic (core c) (rings c @ cells) (sectors c) (rings c @ cells),
            after_cells (int (n * length (ring_sources c))) (after_surfaces (int n) g))"
proof -
  let ?sc = "scan_circles (surfaces (core c))"
  note scan = scan_annulus [OF ann, of "c_id (core c)" g]
  have r1: "radius1 ?sc = radius outer" and r2: "radius2 ?sc = inner_radius inner"
    and cx: "x1 ?sc = center_x outer" and cy: "y1 ?sc = center_y outer"
    using scan by simp_all
  have checks: "ringify_checks (c_id (core c)) ?sc g = Inr g"
    using scan radii by simp
  have radii': "0 \<le> radius2 ?sc" "radius2 ?sc < radius1 ?sc"
    using radii by (simp_all add: r1 r2)
  have A': "A = pi * ((radius1 ?sc)\<^sup>2 - (radius2 ?sc)\<^sup>2) / real n"
    using A by (simp add: r1 r2)
  have circles': "circles = map (spec_ring_circle (x1 ?sc) (y1 ?sc) (radius1 ?sc) A g) [0 ..< n]"
    using circles by (simp add: r1 cx cy)
  show ?thesis
    using inv n refl checks radii' A' circles' cells by (rule ringify_scan_closed)
qed

section \<open>Rings of equal area\<close>

text \<open>
  C4. A well-formed cell whose Circles are an outer one (halfspace \<open>-1\<close>) and at most one
  inner one (halfspace \<open>1\<close>, same centre), with \<open>0 \<le> R_in < R_out\<close> and \<open>n \<ge> 1\<close>
  rings: \<open>ringify\<close> succeeds; the rings it adds are those of the closed form, built on
  Circles whose radii follow \<open>r 0 = R_out\<close>, \<open>r (k + 1) = sqrt ((r k)\<^sup>2 - A / \<pi>)\<close> with
  \<open>A = \<pi> (R_out\<^sup>2 - R_in\<^sup>2) / n\<close>; every ring has the area \<open>A\<close> (the innermost ring
  reaches down to \<open>R_in\<close>), and the areas add up to \<open>\<pi> (R_out\<^sup>2 - R_in\<^sup>2)\<close>.
\<close>

theorem ringify_equal_area_rings:
  assumes inv: "cell_inv c" "list_all cell_inv (sectors c)"
    and ann: "annulus c outer inner"
    and radii: "0 \<le> inner_radius inner" "inner_radius inner < radius outer"
    and n: "num_rings (core c) = int n" "1 \<le> n"
    and A: "A = pi * ((radius outer)\<^sup>2 - (inner_radius inner)\<^sup>2) / real n"
    and circles: "circles = map (spec_ring_circle (center_x outer) (center_y outer) (radius outer) A g) [0 ..< n]"
    and cells: "cells = spec_ring_cells circles (ring_sources c) (after_surfaces (int n) g)"
  shows "ringify c g =
       Inr (CellBasic (core c) (rings c @ cells) (sectors c) (rings c @ cells),
            after_cells (int (n * length (ring_sources c))) (after_surfaces (int n) g))
     \<and> map radius circles = map (spec_ring_radius (radius outer) A) [0 ..< n]
     \<and> (\<forall>k<n. ring_area (radius outer) (inner_radius inner) A n k = A)
     \<and> (\<Sum>k<n. ring_area (radius outer) (inner_radius inner) A n k) =
         pi * ((radius outer)\<^sup>2 - (inner_radius inner)\<^sup>2)"
proof -
  let ?R = "radius outer" and ?r = "inner_radius inner"
  have npos: "0 < n" using n(2) by simp
  have run: "ringify c g =
       Inr (CellBasic (core c) (rings c @ cells) (sectors c) (rings c @ cells),
            after_cells (int (n * length (ring_sources c))) (after_surfaces (int n) g))"
    using inv ann radii n A circles cells by (rule ringify_annulus_closed)
  have rad: "map radius circles = map (spec_ring_radius ?R A) [0 ..< n]"
    by (simp add: circles spec_ring_circle_def)
  have eq: "ring_area ?R ?r A n k = A" if "k < n" for k
    using radii A that by (rule ring_area_equal)
  have "(\<Sum>k<n. ring_area ?R ?r A n k) = (\<Sum>k<n. A)"
    by (rule sum.cong) (simp_all add: eq)
  also have "\<dots> = pi * (?R\<^sup>2 - ?r\<^sup>2)"
    using npos by (simp add: A)
  finally have total: "(\<Sum>k<n. ring_area ?R ?r A n k) = pi * (?R\<^sup>2 - ?r\<^sup>2)" .
  show ?thesis using run rad eq total by blast
qed

lemma pin_cell_inv: "cell_inv (pin_cell r s) \<longleftrightarrow> 0 \<le> r \<and> 0 \<le> s \<and> s \<noteq> 1"
  by (simp add: cell_inv_def pin_cell_def pin_circle_def)

lemma pin_cell_annulus: "annulus (pin_cell r s) pin_circle None"
  by (simp add: annulus_def circle_bounds_def pin_cell_def pin_circle_def)

text \<open>
  The scenario of the spec: the unit Circle split into four rings. Each ring is shown by
  its bindings (Surface id, halfspace, radius).
\<close>

theorem ringify_equal_area_rings_witness:
  "cell_inv (pin_cell 4 0) \<and> list_all cell_inv (sectors (pin_cell 4 0))
   \<and> annulus (pin_cell 4 0) pin_circle None
   \<and> 0 \<le> inner_radius None \<and> inner_radius None < radius pin_circle
   \<and> num_rings (core (pin_cell 4 0)) = int 4
   \<and> map_sum id
        (\<lambda>res. map (\<lambda>ring. map (\<lambda>entry. (fst entry, halfspace (snd entry), radius (surface (snd entry))))
                              (surfaces (core ring)))
                 (subcells (fst res)))
        (ringify (pin_cell 4 0) pin_globals) =
      Inr [[(1, - 1, 1), (10001, - 1, 1), (10002, 1, sqrt (3 / 4))],
           [(1, - 1, 1), (10002, - 1, sqrt (3 / 4)), (10003, 1, sqrt (1 / 2))],
           [(1, - 1, 1), (10003, - 1, sqrt (1 / 2)), (10004, 1, sqrt (1 / 4))],
           [(1, - 1, 1), (10004, - 1, sqrt (1 / 4))]]"
proof -
  have inv: "cell_inv (pin_cell 4 0)" "list_all cell_inv (sectors (pin_cell 4 0))"
    by (simp_all add: pin_cell_inv) (simp add: pin_cell_def)
  have radii: "0 \<le> inner_radius None" "inner_radius None < radius pin_circle"
    by (simp_all add: inner_radius_def pin_circle_def)
  have n: "num_rings (core (pin_cell 4 0)) = int 4" "1 \<le> (4::nat)"
    by (simp_all add: pin_cell_def)
  have A: "pi / 4 = pi * ((radius pin_circle)\<^sup>2 - (inner_radius None)\<^sup>2) / real 4"
    by (simp add: inner_radius_def pin_circle_def)
  have src: "ring_sources (pin_cell 4 0) = [pin_cell 4 0]"
    by (simp add: ring_sources_def pin_cell_def)
  have centre: "center_x pin_circle = 0" "center_y pin_circle = 0" "radius pin_circle = 1"
    by (simp_all add: pin_circle_def)
  have cells: "map (\<lambda>ring. map (\<lambda>entry. (fst entry, halfspace (snd entry), radius (surface (snd entry))))
                              (surfaces (core ring)))
      (spec_ring_cells (map (spec_ring_circle 0 0 1 (pi / 4) pin_globals) [0 ..< 4])
         [pin_cell 4 0] (after_surfaces 4 pin_globals)) =
      [[(1, - 1, 1), (10001, - 1, 1), (10002, 1, sqrt (3 / 4))],
       [(1, - 1, 1), (10002, - 1, sqrt (3 / 4)), (10003, 1, sqrt (1 / 2))],
       [(1, - 1, 1), (10003, - 1, sqrt (1 / 2)), (10004, 1, sqrt (1 / 4))],
       [(1, - 1, 1), (10004, - 1, sqrt (1 / 4))]]"
    by (simp add: spec_ring_cells_def spec_ring_row_def spec_ring_cell_def spec_ring_circle_def
        pin_cell_def pin_globals_def pin_circle_def upt_rec numeral_eq_Suc Let_def)
  have rings: "rings (pin_cell 4 0) = []" by (simp add: pin_cell_def)
  from ringify_equal_area_rings [OF inv pin_cell_annulus radii n A refl refl, of pin_globals]
  have "ringify (pin_cell 4 0) pin_globals =
      Inr (CellBasic (core (pin_cell 4 0))
             (spec_ring_cells (map (spec_ring_circle 0 0 1 (pi / 4) pin_globals) [0 ..< 4])
                [pin_cell 4 0] (after_surfaces 4 pin_globals))
             (sectors (pin_cell 4 0))
             (spec_ring_cells (map (spec_ring_circle 0 0 1 (pi / 4) pin_globals) [0 ..< 4])
                [pin_cell 4 0] (after_surfaces 4 pin_globals)),
           after_cells 4 (after_surfaces 4 pin_globals))"
    by (simp add: src centre rings)
  then show ?thesis
    using inv radii n pin_cell_annulus by (simp add: cells)
qed

lemma sector_plane_fields [simp]:
  "s_id (spec_sector_plane n g i) = surf_auto_id g + int i"
  "coef_A (spec_sector_plane n g i) = cos (real i * (2 * pi / real_of_int n))"
  "coef_B (spec_sector_plane n g i) = sin (real i * (2 * pi / real_of_int n))"
  "coef_C (spec_sector_plane n g i) = 0"
  "surface_type (spec_sector_plane n g i) = PLANE"
  by (simp_all add: spec_sector_plane_def)

lemma sector_cell_bindings:
  assumes n: "num_sectors (core c) = int n" and i: "i < n" and n2: "2 \<le> n"
  shows "map_of (surfaces (core (spec_sector_cell c g i))) (surf_auto_id g + int i) =
           Some \<lparr>surface = spec_sector_plane (int n) g i, halfspace = 1\<rparr>
       \<and> (n \<noteq> 2 \<longrightarrow> map_of (surfaces (core (spec_sector_cell c g i)))
                        (surf_auto_id g + int ((i + 1) mod n)) =
                      Some \<lparr>surface = spec_sector_plane (int n) g ((i + 1) mod n), halfspace = - 1\<rparr>)
       \<and> (n = 2 \<longrightarrow> map_of (surfaces (core (spec_sector_cell c g i))) =
                      (map_of (surfaces (core c)))(surf_auto_id g + int i \<mapsto>
                         \<lparr>surface = spec_sector_plane (int n) g i, halfspace = 1\<rparr>))
       \<and> num_rings (core (spec_sector_cell c g i)) = 0
       \<and> num_sectors (core (spec_sector_cell c g i)) = 0"
proof -
  have neq: "(i + 1) mod n \<noteq> i"
  proof (cases "i + 1 < n")
    case True
    then show ?thesis by simp
  next
    case False
    then have "i + 1 = n" using i by simp
    then show ?thesis using n2 by auto
  qed
  show ?thesis
    using neq by (auto simp: spec_sector_cell_def Let_def n map_of_map_assign)
qed

lemma four_sector_planes:
  "map (\<lambda>i. (coef_A (spec_sector_plane 4 g i), coef_B (spec_sector_plane 4 g i),
              coef_C (spec_sector_plane 4 g i))) [0 ..< 4] =
   [(1, 0, 0), (0, 1, 0), (- 1, 0, 0), (0, - 1, 0)]"
proof -
  have "3 * (2 * pi / 4) = 3 / 2 * pi" by simp
  then have "cos (3 * (2 * pi / 4)) = 0" "sin (3 * (2 * pi / 4)) = - 1"
    by (simp_all only: cos_3over2_pi sin_3over2_pi)
  moreover have "cos (2 * (2 * pi / 4)) = - 1" "sin (2 * (2 * pi / 4)) = 0"
    by simp_all
  moreover have "cos (2 * pi / 4) = 0" "sin (2 * pi / 4) = 1"
    by simp_all
  ultimately show ?thesis
    by (simp add: upt_rec numeral_eq_Suc del: mult_Suc)
qed

lemma cell_inv_core: "core c1 = core c \<Longrightarrow> cell_inv c1 = cell_inv c"
  by (simp add: cell_inv_def)

lemma annulus_core:
  assumes "core c1 = core c"
  shows "annulus c1 outer inner = annulus c outer inner"
proof -
  have "circle_bounds c1 = circle_bounds c" using assms by (simp add: circle_bounds_def)
  then show ?thesis by (simp only: annulus_def)
qed

lemma subdivide_sectors_only:
  assumes inv: "cell_inv c" and n: "num_sectors (core c) = int n" "2 \<le> n"
    and secs: "secs = sectors c @ map (spec_sector_cell c g) [0 ..< n]"
    and g1: "g1 = after_cells (int n) (after_surfaces (int n) g)"
    and r0: "num_rings (core c) = 0"
  shows "subdivideCell c g = Inr (secs, CellBasic (core c) (rings c) secs secs, g1)"
  using r0 by (simp add: subdivideCell_def sectorize_closed [OF inv n] ringify_def secs g1)

lemma subdivide_sectors_rings:
  assumes inv: "cell_inv c" "list_all cell_inv (sectors c)"
    and n: "num_sectors (core c) = int n" "2 \<le> n"
    and secs: "secs = sectors c @ map (spec_sector_cell c g) [0 ..< n]"
    and g1: "g1 = after_cells (int n) (after_surfaces (int n) g)"
    and ann: "annulus c outer inner"
    and radii: "0 \<le> inner_radius inner" "inner_radius inner < radius outer"
    and m: "num_rings (core c) = int m" "1 \<le> m"
    and A: "A = pi * ((radius outer)\<^sup>2 - (inner_radius inner)\<^sup>2) / real m"
    and circles: "circles = map (spec_ring_circle (center_x outer) (center_y outer) (radius outer) A g1) [0 ..< m]"
    and cells: "cells = rings c @ spec_ring_cells circles secs (after_surfaces (int m) g1)"
  shows "subdivideCell c g =
     Inr (cells, CellBasic (core c) cells secs cells,
          after_cells (int (m * length secs)) (after_surfaces (int m) g1))"
proof -
  let ?c1 = "CellBasic (core c) (rings c) secs secs"
  have sec: "sectorize c g = Inr (?c1, g1)"
    by (simp add: sectorize_closed [OF inv(1) n] secs g1)
  have nonempty: "secs \<noteq> []" using n(2) by (simp add: secs)
  have src: "ring_sources ?c1 = secs" using nonempty by (simp add: ring_sources_def)
  have inv1: "cell_inv ?c1" using inv(1) cell_inv_core [of ?c1 c] by simp
  have new: "list_all cell_inv (map (spec_sector_cell c g) [0 ..< n])"
    by (simp add: list_all_iff cell_inv_sector [OF inv(1)])
  have inv2: "list_all cell_inv (sectors ?c1)"
    using inv(2) new by (simp add: secs)
  have ann1: "annulus ?c1 outer inner" using ann annulus_core [of ?c1 c outer inner] by simp
  have m1: "num_rings (core ?c1) = int m" using m(1) by simp
  have ring: "ringify ?c1 g1 =
      Inr (CellBasic (core ?c1) (rings ?c1 @ spec_ring_cells circles (ring_sources ?c1) (after_surfaces (int m) g1))
             (sectors ?c1)
             (rings ?c1 @ spec_ring_cells circles (ring_sources ?c1) (after_surfaces (int m) g1)),
           after_cells (int (m * length (ring_sources ?c1))) (after_surfaces (int m) g1))"
    using inv1 inv2 ann1 radii m1 m(2) A circles refl by (rule ringify_annulus_closed)
  have sel: "rings ?c1 = rings c" "sectors ?c1 = secs" "core ?c1 = core c"
    by simp_all
  show ?thesis
    by (simp only: subdivideCell_def sec sum.case prod.case ring src sel cells CellBasic.sel)
qed

section \<open>Sectors, and sectors by rings\<close>

text \<open>
  C5. A well-formed cell with \<open>n \<ge> 2\<close> sectors. \<open>sectorize\<close> succeeds and appends \<open>n\<close>
  clones to \<^verbatim>\<open>_sectors\<close>, which become the subcells. Plane \<open>i\<close> has the coefficients
  \<open>cos (i 2\<pi>/n)\<close>, \<open>sin (i 2\<pi>/n)\<close>, \<open>0\<close> and the next automatic id. Sector \<open>i\<close>
  binds plane \<open>i\<close> with halfspace \<open>1\<close> and, unless \<open>n = 2\<close>, plane \<open>(i + 1) mod n\<close>
  with halfspace \<open>-1\<close>; for \<open>n = 2\<close> plane \<open>i\<close> is the only binding added; both counts of
  the sector are \<open>0\<close>. For four sectors the planes are \<open>(1,0)\<close>, \<open>(0,1)\<close>, \<open>(-1,0)\<close>,
  \<open>(0,-1)\<close>. \<open>subdivideCell\<close> returns the sectors when no rings are asked for, and
  otherwise (for a cell that \<open>ringify\<close> accepts) one ring clone for every Circle and
  every sector, Circle by Circle: the product of sectors and rings.
\<close>

theorem sectorize_and_subdivide:
  assumes inv: "cell_inv c" "list_all cell_inv (sectors c)"
    and n: "num_sectors (core c) = int n" "2 \<le> n"
    and secs: "secs = sectors c @ map (spec_sector_cell c g) [0 ..< n]"
    and g1: "g1 = after_cells (int n) (after_surfaces (int n) g)"
  shows "sectorize c g = Inr (CellBasic (core c) (rings c) secs secs, g1)
    \<and> (\<forall>i<n. coef_A (spec_sector_plane (int n) g i) = cos (real i * (2 * pi / real n))
           \<and> coef_B (spec_sector_plane (int n) g i) = sin (real i * (2 * pi / real n))
           \<and> coef_C (spec_sector_plane (int n) g i) = 0
           \<and> map_of (surfaces (core (spec_sector_cell c g i))) (surf_auto_id g + int i) =
               Some \<lparr>surface = spec_sector_plane (int n) g i, halfspace = 1\<rparr>
           \<and> (n \<noteq> 2 \<longrightarrow> map_of (surfaces (core (spec_sector_cell c g i)))
                            (surf_auto_id g + int ((i + 1) mod n)) =
                          Some \<lparr>surface = spec_sector_plane (int n) g ((i + 1) mod n), halfspace = - 1\<rparr>)
           \<and> (n = 2 \<longrightarrow> map_of (surfaces (core (spec_sector_cell c g i))) =
                          (map_of (surfaces (core c)))(surf_auto_id g + int i \<mapsto>
                             \<lparr>surface = spec_sector_plane (int n) g i, halfspace = 1\<rparr>))
           \<and> num_rings (core (spec_sector_cell c g i)) = 0
           \<and> num_sectors (core (spec_sector_cell c g i)) = 0)
    \<and> map (\<lambda>i. (coef_A (spec_sector_plane 4 g i), coef_B (spec_sector_plane 4 g i),
                 coef_C (spec_sector_plane 4 g i))) [0 ..< 4] =
        [(1, 0, 0), (0, 1, 0), (- 1, 0, 0), (0, - 1, 0)]
    \<and> (num_rings (core c) = 0 \<longrightarrow>
         subdivideCell c g = Inr (secs, CellBasic (core c) (rings c) secs secs, g1))
    \<and> (\<forall>m outer inner.
         annulus c outer inner \<and> 0 \<le> inner_radius inner \<and> inner_radius inner < radius outer
         \<and> num_rings (core c) = int m \<and> 1 \<le> m \<longrightarrow>
         subdivideCell c g =
           (let A = pi * ((radius outer)\<^sup>2 - (inner_radius inner)\<^sup>2) / real m;
                circles = map (spec_ring_circle (center_x outer) (center_y outer) (radius outer) A g1)
                            [0 ..< m];
                cells = rings c @ spec_ring_cells circles secs (after_surfaces (int m) g1)
            in Inr (cells, CellBasic (core c) cells secs cells,
                    after_cells (int (m * length secs)) (after_surfaces (int m) g1))))"
proof -
  have sec: "sectorize c g = Inr (CellBasic (core c) (rings c) secs secs, g1)"
    by (simp add: sectorize_closed [OF inv(1) n] secs g1)
  have bind: "\<forall>i<n. coef_A (spec_sector_plane (int n) g i) = cos (real i * (2 * pi / real n))
           \<and> coef_B (spec_sector_plane (int n) g i) = sin (real i * (2 * pi / real n))
           \<and> coef_C (spec_sector_plane (int n) g i) = 0
           \<and> map_of (surfaces (core (spec_sector_cell c g i))) (surf_auto_id g + int i) =
               Some \<lparr>surface = spec_sector_plane (int n) g i, halfspace = 1\<rparr>
           \<and> (n \<noteq> 2 \<longrightarrow> map_of (surfaces (core (spec_sector_cell c g i)))
                            (surf_auto_id g + int ((i + 1) mod n)) =
                          Some \<lparr>surface = spec_sector_plane (int n) g ((i + 1) mod n), halfspace = - 1\<rparr>)
           \<and> (n = 2 \<longrightarrow> map_of (surfaces (core (spec_sector_cell c g i))) =
                          (map_of (surfaces (core c)))(surf_auto_id g + int i \<mapsto>
                             \<lparr>surface = spec_sector_plane (int n) g i, halfspace = 1\<rparr>))
           \<and> num_rings (core (spec_sector_cell c g i)) = 0
           \<and> num_sectors (core (spec_sector_cell c g i)) = 0"
  proof (intro allI impI)
    fix i assume i: "i < n"
    show "coef_A (spec_sector_plane (int n) g i) = cos (real i * (2 * pi / real n))
           \<and> coef_B (spec_sector_plane (int n) g i) = sin (real i * (2 * pi / real n))
           \<and> coef_C (spec_sector_plane (int n) g i) = 0
           \<and> map_of (surfaces (core (spec_sector_cell c g i))) (surf_auto_id g + int i) =
               Some \<lparr>surface = spec_sector_plane (int n) g i, halfspace = 1\<rparr>
           \<and> (n \<noteq> 2 \<longrightarrow> map_of (surfaces (core (spec_sector_cell c g i)))
                            (surf_auto_id g + int ((i + 1) mod n)) =
                          Some \<lparr>surface = spec_sector_plane (int n) g ((i + 1) mod n), halfspace = - 1\<rparr>)
           \<and> (n = 2 \<longrightarrow> map_of (surfaces (core (spec_sector_cell c g i))) =
                          (map_of (surfaces (core c)))(surf_auto_id g + int i \<mapsto>
                             \<lparr>surface = spec_sector_plane (int n) g i, halfspace = 1\<rparr>))
           \<and> num_rings (core (spec_sector_cell c g i)) = 0
           \<and> num_sectors (core (spec_sector_cell c g i)) = 0"
      using sector_cell_bindings [OF n(1) i n(2), of g] by simp
  qed
  have only: "num_rings (core c) = 0 \<longrightarrow>
         subdivideCell c g = Inr (secs, CellBasic (core c) (rings c) secs secs, g1)"
  proof
    assume "num_rings (core c) = 0"
    then show "subdivideCell c g = Inr (secs, CellBasic (core c) (rings c) secs secs, g1)"
      by (rule subdivide_sectors_only [OF inv(1) n secs g1])
  qed
  have both: "\<forall>m outer inner.
         annulus c outer inner \<and> 0 \<le> inner_radius inner \<and> inner_radius inner < radius outer
         \<and> num_rings (core c) = int m \<and> 1 \<le> m \<longrightarrow>
         subdivideCell c g =
           (let A = pi * ((radius outer)\<^sup>2 - (inner_radius inner)\<^sup>2) / real m;
                circles = map (spec_ring_circle (center_x outer) (center_y outer) (radius outer) A g1)
                            [0 ..< m];
                cells = rings c @ spec_ring_cells circles secs (after_surfaces (int m) g1)
            in Inr (cells, CellBasic (core c) cells secs cells,
                    after_cells (int (m * length secs)) (after_surfaces (int m) g1)))"
    unfolding Let_def
  proof (intro allI impI, elim conjE)
    fix m outer inner
    assume "annulus c outer inner" "0 \<le> inner_radius inner" "inner_radius inner < radius outer"
      "num_rings (core c) = int m" "1 \<le> m"
    then show "subdivideCell c g =
       Inr (rings c @ spec_ring_cells
                (map (spec_ring_circle (center_x outer) (center_y outer) (radius outer)
                   (pi * ((radius outer)\<^sup>2 - (inner_radius inner)\<^sup>2) / real m) g1) [0 ..< m])
                secs (after_surfaces (int m) g1),
            CellBasic (core c)
              (rings c @ spec_ring_cells
                (map (spec_ring_circle (center_x outer) (center_y outer) (radius outer)
                   (pi * ((radius outer)\<^sup>2 - (inner_radius inner)\<^sup>2) / real m) g1) [0 ..< m])
                secs (after_surfaces (int m) g1))
              secs
              (rings c @ spec_ring_cells
                (map (spec_ring_circle (center_x outer) (center_y outer) (radius outer)
                   (pi * ((radius outer)\<^sup>2 - (inner_radius inner)\<^sup>2) / real m) g1) [0 ..< m])
                secs (after_surfaces (int m) g1)),
            after_cells (int (m * length secs)) (after_surfaces (int m) g1))"
      by (rule subdivide_sectors_rings [OF inv n secs g1 _ _ _ _ _ refl refl refl])
  qed
  show ?thesis by (intro conjI sec bind four_sector_planes only both)
qed

lemma upt_2: "[0 ..< 2] = [0, 1]" by (simp add: upt_rec)
lemma upt_4: "[0 ..< 4] = [0, 1, 2, 3]" by (simp add: upt_rec)

lemma map_assign_proj:
  "map (\<lambda>e. (fst e, f (snd e))) (map_assign k v m) =
   map_assign k (f v) (map (\<lambda>e. (fst e, f (snd e))) m)"
  by (induction m) auto

lemma bindings_sector_cell:
  "bindings (spec_sector_cell c g i) =
     (if nat (num_sectors (core c)) = 2
      then map_assign (surf_auto_id g + int i) 1 (bindings c)
      else map_assign (surf_auto_id g + int ((i + 1) mod nat (num_sectors (core c)))) (- 1)
             (map_assign (surf_auto_id g + int i) 1 (bindings c)))"
  by (simp add: bindings_def spec_sector_cell_def Let_def map_assign_proj)

lemma bindings_ring_cell:
  "bindings (spec_ring_cell circles src k ident uid) =
     (if k + 1 = length circles
      then map_assign (s_id (circles ! k)) (- 1) (bindings src)
      else map_assign (s_id (circles ! (k + 1))) 1
             (map_assign (s_id (circles ! k)) (- 1) (bindings src)))"
  by (simp add: bindings_def spec_ring_cell_def Let_def map_assign_proj)

lemma ring_circle_id [simp]: "s_id (spec_ring_circle cx cy R A g k) = surf_auto_id g + int k"
  by (simp add: spec_ring_circle_def)

lemma bindings_pin_cell [simp]: "bindings (pin_cell r s) = [(1, - 1)]"
  by (simp add: bindings_def pin_cell_def)

lemma pin_cell_fields [simp]:
  "num_rings (core (pin_cell r s)) = r" "num_sectors (core (pin_cell r s)) = s"
  "sectors (pin_cell r s) = []" "rings (pin_cell r s) = []" "subcells (pin_cell r s) = []"
  "c_id (core (pin_cell r s)) = 10000"
  by (simp_all add: pin_cell_def)

lemma pin_circle_fields [simp]:
  "radius pin_circle = 1" "center_x pin_circle = 0" "center_y pin_circle = 0"
  by (simp_all add: pin_circle_def)

lemma pin_globals_fields [simp]:
  "surf_auto_id pin_globals = 10001" "cell_auto_id pin_globals = 10001"
  "surf_n pin_globals = 1" "cell_n pin_globals = 1" "messages pin_globals = []"
  by (simp_all add: pin_globals_def)

text \<open>
  The pin cell with four sectors and two rings: the eight subcells, each shown by its
  bindings (Surface id, halfspace). The planes have the ids 10001 to 10004, the ring
  Circles 10005 and 10006.
\<close>

theorem sectorize_and_subdivide_witness:
  "cell_inv (pin_cell 2 4) \<and> list_all cell_inv (sectors (pin_cell 2 4))
   \<and> num_sectors (core (pin_cell 2 4)) = int 4 \<and> (2::nat) \<le> 4
   \<and> annulus (pin_cell 2 4) pin_circle None
   \<and> 0 \<le> inner_radius None \<and> inner_radius None < radius pin_circle
   \<and> num_rings (core (pin_cell 2 4)) = int 2 \<and> (1::nat) \<le> 2
   \<and> map_sum id (\<lambda>res. map bindings (fst res)) (subdivideCell (pin_cell 2 4) pin_globals) =
      Inr [[(1, - 1), (10001, 1), (10002, - 1), (10005, - 1), (10006, 1)],
           [(1, - 1), (10002, 1), (10003, - 1), (10005, - 1), (10006, 1)],
           [(1, - 1), (10003, 1), (10004, - 1), (10005, - 1), (10006, 1)],
           [(1, - 1), (10001, - 1), (10004, 1), (10005, - 1), (10006, 1)],
           [(1, - 1), (10001, 1), (10002, - 1), (10006, - 1)],
           [(1, - 1), (10002, 1), (10003, - 1), (10006, - 1)],
           [(1, - 1), (10003, 1), (10004, - 1), (10006, - 1)],
           [(1, - 1), (10001, - 1), (10004, 1), (10006, - 1)]]"
proof -
  have inv: "cell_inv (pin_cell 2 4)" "list_all cell_inv (sectors (pin_cell 2 4))"
    by (simp_all add: pin_cell_inv)
  have n: "num_sectors (core (pin_cell 2 4)) = int 4" "(2::nat) \<le> 4" by simp_all
  have radii: "0 \<le> inner_radius None" "inner_radius None < radius pin_circle"
    by (simp_all add: inner_radius_def)
  have m: "num_rings (core (pin_cell 2 4)) = int 2" "(1::nat) \<le> 2" by simp_all
  note inst = sectorize_and_subdivide [OF inv n refl refl, of pin_globals]
  from inst have "\<forall>m outer inner.
         annulus (pin_cell 2 4) outer inner \<and> 0 \<le> inner_radius inner \<and> inner_radius inner < radius outer
         \<and> num_rings (core (pin_cell 2 4)) = int m \<and> 1 \<le> m \<longrightarrow>
         subdivideCell (pin_cell 2 4) pin_globals =
           (let A = pi * ((radius outer)\<^sup>2 - (inner_radius inner)\<^sup>2) / real m;
                circles = map (spec_ring_circle (center_x outer) (center_y outer) (radius outer) A
                                 (after_cells (int 4) (after_surfaces (int 4) pin_globals)))
                            [0 ..< m];
                cells = rings (pin_cell 2 4) @ spec_ring_cells circles
                   (sectors (pin_cell 2 4) @ map (spec_sector_cell (pin_cell 2 4) pin_globals) [0 ..< 4])
                   (after_surfaces (int m) (after_cells (int 4) (after_surfaces (int 4) pin_globals)))
            in Inr (cells, CellBasic (core (pin_cell 2 4)) cells
                      (sectors (pin_cell 2 4) @ map (spec_sector_cell (pin_cell 2 4) pin_globals) [0 ..< 4])
                      cells,
                    after_cells (int (m * length (sectors (pin_cell 2 4) @ map (spec_sector_cell (pin_cell 2 4) pin_globals) [0 ..< 4])))
                      (after_surfaces (int m) (after_cells (int 4) (after_surfaces (int 4) pin_globals)))))"
    by (elim conjE)
  note all = this
  have pre: "annulus (pin_cell 2 4) pin_circle None \<and> 0 \<le> inner_radius None
      \<and> inner_radius None < radius pin_circle
      \<and> num_rings (core (pin_cell 2 4)) = int 2 \<and> 1 \<le> (2::nat)"
    using pin_cell_annulus [of 2 4] radii m by simp
  from all [rule_format, OF pre] have run: "map_sum id (\<lambda>res. map bindings (fst res)) (subdivideCell (pin_cell 2 4) pin_globals) =
      Inr (map bindings (spec_ring_cells
        (map (spec_ring_circle 0 0 1 (pi * (1 - (inner_radius None)\<^sup>2) / 2)
           (after_cells 4 (after_surfaces 4 pin_globals))) [0 ..< 2])
        (map (spec_sector_cell (pin_cell 2 4) pin_globals) [0 ..< 4])
        (after_surfaces 2 (after_cells 4 (after_surfaces 4 pin_globals)))))"
    by (simp add: Let_def)
  have eval: "map bindings (spec_ring_cells
        (map (spec_ring_circle 0 0 1 (pi * (1 - (inner_radius None)\<^sup>2) / 2)
           (after_cells 4 (after_surfaces 4 pin_globals))) [0 ..< 2])
        (map (spec_sector_cell (pin_cell 2 4) pin_globals) [0 ..< 4])
        (after_surfaces 2 (after_cells 4 (after_surfaces 4 pin_globals)))) =
      [[(1, - 1), (10001, 1), (10002, - 1), (10005, - 1), (10006, 1)],
           [(1, - 1), (10002, 1), (10003, - 1), (10005, - 1), (10006, 1)],
           [(1, - 1), (10003, 1), (10004, - 1), (10005, - 1), (10006, 1)],
           [(1, - 1), (10001, - 1), (10004, 1), (10005, - 1), (10006, 1)],
           [(1, - 1), (10001, 1), (10002, - 1), (10006, - 1)],
           [(1, - 1), (10002, 1), (10003, - 1), (10006, - 1)],
           [(1, - 1), (10003, 1), (10004, - 1), (10006, - 1)],
           [(1, - 1), (10001, - 1), (10004, 1), (10006, - 1)]]"
    by (simp add: spec_ring_cells_def spec_ring_row_def upt_2 upt_4 bindings_ring_cell
        bindings_sector_cell)
  show ?thesis
    using inv n radii m pin_cell_annulus [of 2 4] by (simp add: run eval)
qed

lemma ringify_rejects_inverted:
  assumes "num_rings (core c) \<noteq> 0"
    and "radius1 (scan_circles (surfaces (core c))) \<le> radius2 (scan_circles (surfaces (core c)))"
  shows "\<exists>e. ringify c g = Inl e"
proof -
  have "\<exists>e. ringify_checks (c_id (core c)) (scan_circles (surfaces (core c))) g = Inl e"
    using assms(2) by (simp add: ringify_checks_def Let_def)
  then show ?thesis using assms(1) by (auto simp: ringify_def Let_def)
qed

lemma ringify_annulus_inverted:
  assumes "annulus c outer inner" and "radius outer \<le> inner_radius inner"
    and "num_rings (core c) \<noteq> 0"
  shows "ringify c g =
     (if inner = None then Inl NullPointer else Inl (DisjointCircles (c_id (core c))))"
proof -
  have "ringify_checks (c_id (core c)) (scan_circles (surfaces (core c))) g =
      (if inner = None then Inl NullPointer else Inl (DisjointCircles (c_id (core c))))"
    using scan_annulus [OF assms(1), of "c_id (core c)" g] assms(2) by simp
  then show ?thesis using assms(3) by (simp add: ringify_def Let_def)
qed

lemma ringify_too_many_circles:
  assumes inv: "cell_inv c" "list_all cell_inv (sectors c)"
    and n: "1 \<le> num_rings (core c)"
    and many: "2 < num_circles (scan_circles (surfaces (core c)))"
    and c1: "circle1 (scan_circles (surfaces (core c))) \<noteq> None"
    and radii: "0 \<le> radius2 (scan_circles (surfaces (core c)))"
      "radius2 (scan_circles (surfaces (core c))) < radius1 (scan_circles (surfaces (core c)))"
  shows "\<exists>c' g'. ringify c g = Inr (c', g') \<and> messages g' = messages g @ [too_many_circles]"
proof -
  let ?sc = "scan_circles (surfaces (core c))"
  let ?g1 = "g\<lparr>messages := messages g @ [too_many_circles]\<rparr>"
  define m where "m = nat (num_rings (core c))"
  have m: "num_rings (core c) = int m" "1 \<le> m"
    using n by (simp_all add: m_def)
  have checks: "ringify_checks (c_id (core c)) ?sc g = Inr ?g1"
    using many c1 radii by (simp add: ringify_checks_def Let_def)
  have "ringify c g =
       Inr (CellBasic (core c)
              (rings c @ spec_ring_cells
                 (map (spec_ring_circle (x1 ?sc) (y1 ?sc) (radius1 ?sc)
                    (pi * ((radius1 ?sc)\<^sup>2 - (radius2 ?sc)\<^sup>2) / real m) ?g1) [0 ..< m])
                 (ring_sources c) (after_surfaces (int m) ?g1))
              (sectors c)
              (rings c @ spec_ring_cells
                 (map (spec_ring_circle (x1 ?sc) (y1 ?sc) (radius1 ?sc)
                    (pi * ((radius1 ?sc)\<^sup>2 - (radius2 ?sc)\<^sup>2) / real m) ?g1) [0 ..< m])
                 (ring_sources c) (after_surfaces (int m) ?g1)),
            after_cells (int (m * length (ring_sources c))) (after_surfaces (int m) ?g1))"
    using inv m refl checks radii refl refl refl by (rule ringify_scan_closed)
  then show ?thesis by simp
qed

section \<open>Degenerate rings\<close>

text \<open>
  C6, as the source has it. When the radius retained for the outer Circle is not above
  the one retained for the inner Circle, \<open>ringify\<close> ends in a fatal error and adds
  nothing (for a cell with an outer and an inner Circle the error is the one of line 474;
  with no inner Circle its arguments dereference a null pointer). More than two Circles
  alone are not fatal: the message of level \<^verbatim>\<open>NORMAL\<close> is recorded and \<open>ringify\<close> returns
  normally.
\<close>

theorem ringify_degenerate_cases:
  "(num_rings (core c) \<noteq> 0
      \<and> radius1 (scan_circles (surfaces (core c))) \<le> radius2 (scan_circles (surfaces (core c)))
      \<longrightarrow> (\<exists>e. ringify c g = Inl e))
   \<and> (annulus c outer inner \<and> radius outer \<le> inner_radius inner \<and> num_rings (core c) \<noteq> 0
      \<longrightarrow> ringify c g =
            (if inner = None then Inl NullPointer else Inl (DisjointCircles (c_id (core c)))))
   \<and> (cell_inv c \<and> list_all cell_inv (sectors c) \<and> 1 \<le> num_rings (core c)
      \<and> 2 < num_circles (scan_circles (surfaces (core c)))
      \<and> circle1 (scan_circles (surfaces (core c))) \<noteq> None
      \<and> 0 \<le> radius2 (scan_circles (surfaces (core c)))
      \<and> radius2 (scan_circles (surfaces (core c))) < radius1 (scan_circles (surfaces (core c)))
      \<longrightarrow> (\<exists>c' g'. ringify c g = Inr (c', g')
            \<and> messages g' = messages g @ [too_many_circles]))"
proof (intro conjI impI)
  assume "num_rings (core c) \<noteq> 0
      \<and> radius1 (scan_circles (surfaces (core c))) \<le> radius2 (scan_circles (surfaces (core c)))"
  then show "\<exists>e. ringify c g = Inl e"
    using ringify_rejects_inverted [of c g] by blast
next
  assume "annulus c outer inner \<and> radius outer \<le> inner_radius inner \<and> num_rings (core c) \<noteq> 0"
  then show "ringify c g =
      (if inner = None then Inl NullPointer else Inl (DisjointCircles (c_id (core c))))"
    using ringify_annulus_inverted [of c outer inner g] by blast
next
  assume "cell_inv c \<and> list_all cell_inv (sectors c) \<and> 1 \<le> num_rings (core c)
      \<and> 2 < num_circles (scan_circles (surfaces (core c)))
      \<and> circle1 (scan_circles (surfaces (core c))) \<noteq> None
      \<and> 0 \<le> radius2 (scan_circles (surfaces (core c)))
      \<and> radius2 (scan_circles (surfaces (core c))) < radius1 (scan_circles (surfaces (core c)))"
  then show "\<exists>c' g'. ringify c g = Inr (c', g') \<and> messages g' = messages g @ [too_many_circles]"
    using ringify_too_many_circles [of c g] by blast
qed

lemma hollow_cell_scan:
  "scan_circles (surfaces (core hollow_cell)) =
     \<lparr>num_circles = 2, circle1 = Some pin_circle, circle2 = Some big_circle, radius1 = 1,
      radius2 = 2, x1 = 0, y1 = 0, x2 = 0, y2 = 0, halfspace1 = - 1, halfspace2 = 1\<rparr>"
  by (simp add: scan_circles_def scan_step_def scan_init_def hollow_cell_def pin_circle_def
      big_circle_def)

lemma crowded_cell_scan:
  "scan_circles (surfaces (core crowded_cell)) =
     \<lparr>num_circles = 3, circle1 = Some pin_circle, circle2 = Some quarter_circle, radius1 = 1,
      radius2 = 1 / 4, x1 = 0, y1 = 0, x2 = 0, y2 = 0, halfspace1 = - 1, halfspace2 = 1\<rparr>"
  by (simp add: scan_circles_def scan_step_def scan_init_def crowded_cell_def pin_circle_def
      half_circle_def quarter_circle_def)

text \<open>
  The claim fails on the cell whose inner Circle (radius 2) is larger than its outer Circle
  (radius 1), with two rings asked for: the result is the fatal error of line 474, not a
  warning.
\<close>

theorem ringify_inverted_radii_fatal:
  "ringify hollow_cell pin_globals = Inl (DisjointCircles 10000)"
  by (simp add: ringify_def hollow_cell_scan ringify_checks_def Let_def)
     (simp add: hollow_cell_def)

theorem ringify_degenerate_cases_witness:
  "num_rings (core hollow_cell) \<noteq> 0
   \<and> radius1 (scan_circles (surfaces (core hollow_cell)))
       \<le> radius2 (scan_circles (surfaces (core hollow_cell)))
   \<and> annulus hollow_cell pin_circle (Some big_circle)
   \<and> radius pin_circle \<le> inner_radius (Some big_circle)
   \<and> ringify hollow_cell pin_globals = Inl (DisjointCircles 10000)
   \<and> cell_inv crowded_cell \<and> list_all cell_inv (sectors crowded_cell)
   \<and> 1 \<le> num_rings (core crowded_cell)
   \<and> 2 < num_circles (scan_circles (surfaces (core crowded_cell)))
   \<and> circle1 (scan_circles (surfaces (core crowded_cell))) \<noteq> None
   \<and> 0 \<le> radius2 (scan_circles (surfaces (core crowded_cell)))
   \<and> radius2 (scan_circles (surfaces (core crowded_cell)))
       < radius1 (scan_circles (surfaces (core crowded_cell)))
   \<and> (\<exists>c' g'. ringify crowded_cell pin_globals = Inr (c', g')
        \<and> messages g' = [too_many_circles])"
proof -
  have a: "num_rings (core hollow_cell) \<noteq> 0"
    "radius1 (scan_circles (surfaces (core hollow_cell)))
       \<le> radius2 (scan_circles (surfaces (core hollow_cell)))"
    by (simp_all add: hollow_cell_scan) (simp add: hollow_cell_def)
  have b: "annulus hollow_cell pin_circle (Some big_circle)"
    "radius pin_circle \<le> inner_radius (Some big_circle)"
    by (simp_all add: annulus_def circle_bounds_def hollow_cell_def pin_circle_def big_circle_def
        inner_radius_def)
  have c: "cell_inv crowded_cell" "list_all cell_inv (sectors crowded_cell)"
    "1 \<le> num_rings (core crowded_cell)"
    by (simp_all add: cell_inv_def crowded_cell_def pin_circle_def half_circle_def
        quarter_circle_def)
  have d: "2 < num_circles (scan_circles (surfaces (core crowded_cell)))"
    "circle1 (scan_circles (surfaces (core crowded_cell))) \<noteq> None"
    "0 \<le> radius2 (scan_circles (surfaces (core crowded_cell)))"
    "radius2 (scan_circles (surfaces (core crowded_cell)))
       < radius1 (scan_circles (surfaces (core crowded_cell)))"
    by (simp_all add: crowded_cell_scan)
  note hollow = ringify_degenerate_cases [of hollow_cell pin_globals pin_circle "Some big_circle"]
  note crowded = ringify_degenerate_cases [of crowded_cell pin_globals pin_circle None]
  have fatal: "ringify hollow_cell pin_globals = Inl (DisjointCircles 10000)"
    using hollow a b by (simp add: hollow_cell_def)
  have warned: "\<exists>c' g'. ringify crowded_cell pin_globals = Inr (c', g')
        \<and> messages g' = [too_many_circles]"
    using crowded c d by simp
  show ?thesis using a b c d fatal warned by (intro conjI)
qed

section \<open>Subdivision without rings and sectors\<close>

lemma subdivideCell_no_counts:
  assumes "num_rings (core c) = 0" and "num_sectors (core c) = 0"
  shows "subdivideCell c g = Inr (subcells c, c, g)"
  using assms by (simp add: subdivideCell_def sectorize_def ringify_def)

lemma CellBasic_ctor_containers:
  assumes "CellBasic_ctor u m r s ident g = Inr (c, g')"
  shows "rings c = [] \<and> sectors c = [] \<and> subcells c = []"
  using assms
  by (auto simp: CellBasic_ctor_def setNumRings_def setNumSectors_def map_fields_def
      split: sum.splits if_splits prod.splits)

text \<open>
  C9, as the source has it. With both counts \<open>0\<close> nothing is created and the vector
  returned is the container \<^verbatim>\<open>_subcells\<close> as it stands: the empty list for a cell that
  comes from the constructor (called with no rings and with no or one sector), never the
  singleton of the cell itself.
\<close>

theorem subdivideCell_returns_stored_subcells:
  "(num_rings (core c) = 0 \<and> num_sectors (core c) = 0 \<longrightarrow>
      subdivideCell c g = Inr (subcells c, c, g))
   \<and> (CellBasic_ctor u m 0 s ident g0 = Inr (c0, g) \<and> (s = 0 \<or> s = 1) \<longrightarrow>
      subdivideCell c0 g = Inr ([], c0, g))"
proof (intro conjI impI)
  assume "num_rings (core c) = 0 \<and> num_sectors (core c) = 0"
  then show "subdivideCell c g = Inr (subcells c, c, g)"
    by (simp add: subdivideCell_no_counts)
next
  assume a: "CellBasic_ctor u m 0 s ident g0 = Inr (c0, g) \<and> (s = 0 \<or> s = 1)"
  then have empty: "subcells c0 = []" using CellBasic_ctor_containers by blast
  have "num_rings (core c0) = 0 \<and> num_sectors (core c0) = 0"
    using a
    by (auto simp: CellBasic_ctor_def setNumRings_def setNumSectors_def map_fields_def
        split: sum.splits if_splits prod.splits)
  then show "subdivideCell c0 g = Inr ([], c0, g)"
    using empty by (simp add: subdivideCell_no_counts)
qed

text \<open>
  The claim fails on a cell that was subdivided before: the pin cell with two sectors is
  subdivided, \<open>setNumSectors 0\<close> then leaves both counts at \<open>0\<close>, and the next
  \<open>subdivideCell\<close> returns the two sector clones of the first call.
\<close>

theorem subdivideCell_returns_stale_subcells:
  "subdivideCell (pin_cell 0 2) pin_globals =
     Inr (subcells subdivided_pin, subdivided_pin, subdivided_globals)
   \<and> setNumSectors 0 subdivided_pin = Inr stale_cell
   \<and> num_rings (core stale_cell) = 0 \<and> num_sectors (core stale_cell) = 0
   \<and> subdivideCell stale_cell subdivided_globals =
       Inr (subcells stale_cell, stale_cell, subdivided_globals)
   \<and> length (subcells stale_cell) = 2"
proof -
  have inv: "cell_inv (pin_cell 0 2)" by (simp add: pin_cell_inv)
  have first: "subdivideCell (pin_cell 0 2) pin_globals =
     Inr (subcells subdivided_pin, subdivided_pin, subdivided_globals)"
    using subdivide_sectors_only [OF inv _ _ refl refl, of 2 pin_globals]
    by (simp add: subdivided_pin_def subdivided_globals_def)
  have second: "setNumSectors 0 subdivided_pin = Inr stale_cell"
    by (simp add: setNumSectors_def subdivided_pin_def stale_cell_def map_fields_def)
  have counts: "num_rings (core stale_cell) = 0" "num_sectors (core stale_cell) = 0"
    by (simp_all add: stale_cell_def)
  have third: "subdivideCell stale_cell subdivided_globals =
       Inr (subcells stale_cell, stale_cell, subdivided_globals)"
    using counts by (rule subdivideCell_no_counts)
  have len: "length (subcells stale_cell) = 2" by (simp add: stale_cell_def)
  show ?thesis using first second counts third len by (intro conjI)
qed

theorem subdivideCell_returns_stored_subcells_witness:
  "num_rings (core (pin_cell 0 0)) = 0 \<and> num_sectors (core (pin_cell 0 0)) = 0
   \<and> subdivideCell (pin_cell 0 0) pin_globals = Inr ([], pin_cell 0 0, pin_globals)
   \<and> CellBasic_ctor 0 1 0 1 0 initial_globals =
       Inr (CellBasic \<lparr>c_uid = 0, c_id = 10000, cell_type = MATERIAL, universe = 0,
               surfaces = [], material = 1, num_rings = 0, num_sectors = 0\<rparr> [] [] [],
            after_cells 1 initial_globals)
   \<and> subdivideCell (CellBasic \<lparr>c_uid = 0, c_id = 10000, cell_type = MATERIAL, universe = 0,
               surfaces = [], material = 1, num_rings = 0, num_sectors = 0\<rparr> [] [] [])
         (after_cells 1 initial_globals) =
       Inr ([], CellBasic \<lparr>c_uid = 0, c_id = 10000, cell_type = MATERIAL, universe = 0,
               surfaces = [], material = 1, num_rings = 0, num_sectors = 0\<rparr> [] [] [],
            after_cells 1 initial_globals)"
proof -
  let ?c0 = "CellBasic \<lparr>c_uid = 0, c_id = 10000, cell_type = MATERIAL, universe = 0,
               surfaces = [], material = 1, num_rings = 0, num_sectors = 0\<rparr> [] [] []"
  have counts: "num_rings (core (pin_cell 0 0)) = 0 \<and> num_sectors (core (pin_cell 0 0)) = 0"
    by simp
  have ctor: "CellBasic_ctor 0 1 0 1 0 initial_globals = Inr (?c0, after_cells 1 initial_globals)"
    by (simp add: CellBasic_ctor_def Cell_ctor_def cell_id_def setNumRings_def setNumSectors_def
        map_fields_def initial_globals_def after_cells_def)
  note pin = subdivideCell_returns_stored_subcells
    [of "pin_cell 0 0" pin_globals 0 1 1 0 initial_globals ?c0]
  have one: "subdivideCell (pin_cell 0 0) pin_globals = Inr ([], pin_cell 0 0, pin_globals)"
    using pin counts by simp
  note fresh = subdivideCell_returns_stored_subcells
    [of "pin_cell 0 0" "after_cells 1 initial_globals" 0 1 1 0 initial_globals ?c0]
  have two: "subdivideCell ?c0 (after_cells 1 initial_globals) =
      Inr ([], ?c0, after_cells 1 initial_globals)"
    using fresh ctor by simp
  show ?thesis using counts one ctor two by (intro conjI) simp_all
qed

section \<open>Loops over arrays\<close>

lemma concat_blocks: "concat (map (\<lambda>v. [v * k ..< (v + 1) * k]) [0 ..< n]) = [0 ..< n * k]"
proof (induction n)
  case 0
  show ?case by simp
next
  case (Suc n)
  have split: "[0 ..< n * k + k] = [0 ..< n * k] @ [n * k ..< n * k + k]"
    by (rule upt_add_eq_append) simp
  have "concat (map (\<lambda>v. [v * k ..< (v + 1) * k]) [0 ..< Suc n]) =
      concat (map (\<lambda>v. [v * k ..< (v + 1) * k]) [0 ..< n]) @ [n * k ..< (n + 1) * k]"
    by simp
  also have "\<dots> = [0 ..< n * k] @ [n * k ..< n * k + k]"
    unfolding Suc by (simp add: add.commute)
  also have "\<dots> = [0 ..< Suc n * k]"
    unfolding split [symmetric] by (simp add: add.commute)
  finally show ?case .
qed

lemma vector_groups_all:
  assumes "num_groups s = int ng" and "num_vector_lengths s * VEC_LENGTH = num_groups s"
    and "0 \<le> VEC_LENGTH" and "0 \<le> num_vector_lengths s"
  shows "vector_groups VEC_LENGTH s = [0 ..< ng]"
proof -
  define k where "k = nat VEC_LENGTH"
  define n where "n = nat (num_vector_lengths s)"
  have VL: "VEC_LENGTH = int k" and nvl: "num_vector_lengths s = int n"
    using assms(3,4) by (simp_all add: k_def n_def)
  have "int ng = int (n * k)"
    using assms(1,2) unfolding VL nvl by simp
  then have ng: "ng = n * k" by (simp only: of_nat_eq_iff)
  have blocks: "[nat (int v * int k) ..< nat ((int v + 1) * int k)] = [v * k ..< (v + 1) * k]" for v
  proof -
    have "int v * int k = int (v * k)" by simp
    moreover have "(int v + 1) * int k = int ((v + 1) * k)" by (simp add: algebra_simps)
    ultimately show ?thesis by (simp only: nat_int)
  qed
  show ?thesis
    unfolding vector_groups_def VL nvl blocks ng nat_int by (rule concat_blocks)
qed

lemma idx_nat:
  assumes "num_groups s = int ng"
  shows "idx s r e = r * ng + e"
proof -
  have "int r * int ng + int e = int (r * ng + e)" by simp
  then show ?thesis unfolding idx_def assms by (simp only: nat_int)
qed

lemma sum_rows:
  fixes h :: "nat \<Rightarrow> real"
  shows "(\<Sum>i<n * k. h i) = (\<Sum>r<n. \<Sum>e<k. h (r * k + e))"
proof -
  have row: "sum h {r * k ..< r * k + k} = (\<Sum>e<k. h (r * k + e))" for r
    using sum.shift_bounds_nat_ivl [of h 0 "r * k" k]
    by (simp add: lessThan_atLeast0 add.commute)
  have "(\<Sum>i<n * k. h i) = (\<Sum>r<n. sum h {r * k ..< r * k + k})"
    by (rule sum.nat_group [symmetric])
  then show ?thesis by (simp only: row)
qed

text \<open>A loop that writes \<open>v j\<close> at index \<open>b + j\<close> for \<open>j\<close> below \<open>m\<close>.\<close>

lemma fold_upd_block:
  fixes f0 :: "nat \<Rightarrow> real"
  shows "fold (\<lambda>j f. f(b + j := v j)) [0 ..< m] f0 =
     (\<lambda>i. if b \<le> i \<and> i < b + m then v (i - b) else f0 i)"
proof (induction m)
  case 0
  show ?case by (auto simp: fun_eq_iff)
next
  case (Suc m)
  have "fold (\<lambda>j f. f(b + j := v j)) [0 ..< Suc m] f0 =
      (fold (\<lambda>j f. f(b + j := v j)) [0 ..< m] f0)(b + m := v m)"
    by (simp only: upt_Suc_append [OF le0] fold_append fold_simps o_apply id_apply)
  also have "\<dots> = (\<lambda>i. if b \<le> i \<and> i < b + m then v (i - b) else f0 i)(b + m := v m)"
    by (simp only: Suc)
  also have "\<dots> = (\<lambda>i. if b \<le> i \<and> i < b + Suc m then v (i - b) else f0 i)"
    by (auto simp: fun_eq_iff)
  finally show ?case .
qed

text \<open>A loop over the rows, each written as a block.\<close>

lemma fold_upd_rows:
  fixes f0 :: "nat \<Rightarrow> real"
  shows "fold (\<lambda>r f. (\<lambda>i. if r * k \<le> i \<and> i < r * k + k then v r (i - r * k) else f i)) [0 ..< n] f0 =
     (\<lambda>i. if i < n * k then v (i div k) (i mod k) else f0 i)"
proof (induction n)
  case 0
  show ?case by (simp add: fun_eq_iff)
next
  case (Suc n)
  have in_row: "i div k = n \<and> i mod k = i - n * k" if "n * k \<le> i" "i < n * k + k" for i
  proof -
    have kpos: "0 < k" using that by (cases k) auto
    define j where "j = i - n * k"
    have j: "i = n * k + j" "j < k" using that by (simp_all add: j_def)
    show ?thesis unfolding j(1) using j(2) kpos by simp
  qed
  have "fold (\<lambda>r f. (\<lambda>i. if r * k \<le> i \<and> i < r * k + k then v r (i - r * k) else f i)) [0 ..< Suc n] f0 =
      (\<lambda>i. if n * k \<le> i \<and> i < n * k + k then v n (i - n * k)
           else fold (\<lambda>r f. (\<lambda>i. if r * k \<le> i \<and> i < r * k + k then v r (i - r * k) else f i)) [0 ..< n] f0 i)"
    by (simp only: upt_Suc_append [OF le0] fold_append fold_simps o_apply id_apply)
  also have "\<dots> = (\<lambda>i. if n * k \<le> i \<and> i < n * k + k then v n (i - n * k)
           else (if i < n * k then v (i div k) (i mod k) else f0 i))"
    by (simp only: Suc)
  also have "\<dots> = (\<lambda>i. if i < Suc n * k then v (i div k) (i mod k) else f0 i)"
    using in_row by (auto simp: fun_eq_iff)
  finally show ?case .
qed

lemma asum_rows:
  assumes "\<And>i. i < n * k \<Longrightarrow> x i = v (i div k) (i mod k)"
  shows "asum (int (n * k)) x = (\<Sum>r<n. \<Sum>e<k. \<bar>v r e\<bar>)"
proof -
  have "asum (int (n * k)) x = (\<Sum>i<n * k. \<bar>v (i div k) (i mod k)\<bar>)"
    unfolding asum_def nat_int by (rule sum.cong) (simp_all add: assms)
  also have "\<dots> = (\<Sum>r<n. \<Sum>e<k. \<bar>v ((r * k + e) div k) ((r * k + e) mod k)\<bar>)"
    by (rule sum_rows)
  also have "\<dots> = (\<Sum>r<n. \<Sum>e<k. \<bar>v r e\<bar>)"
    by (intro sum.cong refl) simp
  finally show ?thesis .
qed

lemma rates_step_fst:
  "fst (fold (rates_step s r) xs st) =
     fold (\<lambda>e a. a(idx s r e := sigma_a (FSR_materials s r) e * scalar_flux s (idx s r e)
                                    * FSR_volumes s r)) xs (fst st)"
  by (induction xs arbitrary: st) (simp_all add: rates_step_def Let_def)

lemma rates_step_snd:
  "snd (fold (rates_step s r) xs st) =
     fold (\<lambda>e f. f(idx s r e := nu_sigma_f (FSR_materials s r) e * scalar_flux s (idx s r e)
                                    * FSR_volumes s r)) xs (snd st)"
  by (induction xs arbitrary: st) (simp_all add: rates_step_def Let_def)

lemma rates_rows_fst:
  "fst (fold (\<lambda>r. fold (rates_step s r) xs) rs st) =
     fold (\<lambda>r. fold (\<lambda>e a. a(idx s r e := sigma_a (FSR_materials s r) e
                 * scalar_flux s (idx s r e) * FSR_volumes s r)) xs) rs (fst st)"
  by (induction rs arbitrary: st) (simp_all add: rates_step_fst)

lemma rates_rows_snd:
  "snd (fold (\<lambda>r. fold (rates_step s r) xs) rs st) =
     fold (\<lambda>r. fold (\<lambda>e f. f(idx s r e := nu_sigma_f (FSR_materials s r) e
                 * scalar_flux s (idx s r e) * FSR_volumes s r)) xs) rs (snd st)"
  by (induction rs arbitrary: st) (simp_all add: rates_step_snd)

text \<open>Two nested loops that write \<open>v r e\<close> at \<open>r * k + e\<close>.\<close>

lemma fold_upd_matrix:
  fixes f0 :: "nat \<Rightarrow> real"
  shows "fold (\<lambda>r. fold (\<lambda>e f. f(r * k + e := v r e)) [0 ..< k]) [0 ..< n] f0 =
     (\<lambda>i. if i < n * k then v (i div k) (i mod k) else f0 i)"
proof -
  have "(\<lambda>r. fold (\<lambda>e f. f(r * k + e := v r e)) [0 ..< k]) =
      (\<lambda>r f. (\<lambda>i. if r * k \<le> i \<and> i < r * k + k then v r (i - r * k) else f i))"
    by (intro ext) (simp only: fold_upd_block)
  then show ?thesis by (simp only: fold_upd_rows)
qed

lemma computeKeff_closed:
  assumes ng: "num_groups s = int ng" and nF: "num_FSRs s = int nF"
    and cover: "num_vector_lengths s * VEC_LENGTH = num_groups s"
      "0 \<le> VEC_LENGTH" "0 \<le> num_vector_lengths s"
  shows "computeKeff VEC_LENGTH a0 f0 s =
     (if spec_absorption_rate s + spec_leakage s = 0 then Inl NonFinite
      else Inr (s\<lparr>leakage := spec_leakage s,
                 k_eff := spec_fission_rate s / (spec_absorption_rate s + spec_leakage s)\<rparr>))"
proof -
  have groups: "vector_groups VEC_LENGTH s = [0 ..< ng]"
    using ng cover by (rule vector_groups_all)
  have idx: "idx s r e = r * ng + e" for r e
    using ng by (rule idx_nat)
  let ?rates = "fold (\<lambda>r. fold (rates_step s r) [0 ..< ng]) [0 ..< nF] (a0, f0)"
  have a: "fst ?rates = (\<lambda>i. if i < nF * ng
        then sigma_a (FSR_materials s (i div ng)) (i mod ng) * scalar_flux s ((i div ng) * ng + i mod ng)
               * FSR_volumes s (i div ng)
        else a0 i)"
    unfolding rates_rows_fst idx fst_conv
    by (rule fold_upd_matrix [of ng "\<lambda>r e. sigma_a (FSR_materials s r) e * scalar_flux s (r * ng + e)
        * FSR_volumes s r" nF a0])
  have f: "snd ?rates = (\<lambda>i. if i < nF * ng
        then nu_sigma_f (FSR_materials s (i div ng)) (i mod ng) * scalar_flux s ((i div ng) * ng + i mod ng)
               * FSR_volumes s (i div ng)
        else f0 i)"
    unfolding rates_rows_snd idx snd_conv
    by (rule fold_upd_matrix [of ng "\<lambda>r e. nu_sigma_f (FSR_materials s r) e * scalar_flux s (r * ng + e)
        * FSR_volumes s r" nF f0])
  have size: "num_FSRs s * num_groups s = int (nF * ng)" by (simp add: ng nF)
  have "asum (int (nF * ng)) (fst ?rates) =
      (\<Sum>r<nF. \<Sum>e<ng. \<bar>sigma_a (FSR_materials s r) e * scalar_flux s (r * ng + e)
         * FSR_volumes s r\<bar>)"
    by (rule asum_rows) (simp add: a)
  then have tot_abs: "asum (num_FSRs s * num_groups s) (fst ?rates) = spec_absorption_rate s"
    unfolding size spec_absorption_rate_def by (simp only: ng nF nat_int)
  have "asum (int (nF * ng)) (snd ?rates) =
      (\<Sum>r<nF. \<Sum>e<ng. \<bar>nu_sigma_f (FSR_materials s r) e * scalar_flux s (r * ng + e)
         * FSR_volumes s r\<bar>)"
    by (rule asum_rows) (simp add: f)
  then have tot_fis: "asum (num_FSRs s * num_groups s) (snd ?rates) = spec_fission_rate s"
    unfolding size spec_fission_rate_def by (simp only: ng nF nat_int)
  have leak: "asum (2 * tot_num_tracks s * polar_times_groups s) (boundary_leakage s) * (1 / 2) =
      spec_leakage s"
    by (simp add: asum_def spec_leakage_def)
  have n: "nat (num_FSRs s) = nF" by (simp add: nF)
  show ?thesis
    unfolding computeKeff_def groups n Let_def tot_abs tot_fis leak by (rule refl)
qed

section \<open>The multiplication factor\<close>

text \<open>
  C1, as the source has it. When the groups of the vector loops are the solver's groups
  (\<open>_num_vector_lengths * VEC_LENGTH = _num_groups\<close>), \<open>computeKeff\<close> sets \<open>_leakage\<close> to
  half the sum of the absolute values of the leakage array and \<open>_k_eff\<close> to the fission
  rate over the sum of the absorption rate and that leakage, the leakage entering once
  and not halved again; the rates are sums of absolute values, as \<^verbatim>\<open>cblas_dasum\<close>
  computes them.
\<close>

theorem computeKeff_ratio:
  assumes "num_groups s = int ng" and "num_FSRs s = int nF"
    and "num_vector_lengths s * VEC_LENGTH = num_groups s"
    and "0 \<le> VEC_LENGTH" and "0 \<le> num_vector_lengths s"
  shows "computeKeff VEC_LENGTH a0 f0 s =
     (if spec_absorption_rate s + spec_leakage s = 0 then Inl NonFinite
      else Inr (s\<lparr>leakage := spec_leakage s,
                 k_eff := spec_fission_rate s / (spec_absorption_rate s + spec_leakage s)\<rparr>))"
  using assms by (rule computeKeff_closed)

lemma example_solver_rates:
  "spec_fission_rate example_solver = 4" "spec_absorption_rate example_solver = 4"
  "spec_leakage example_solver = 2"
  by (simp_all add: spec_fission_rate_def spec_absorption_rate_def spec_leakage_def
      example_solver_def unit_material_def)

theorem computeKeff_ratio_witness:
  "num_groups example_solver = int 2 \<and> num_FSRs example_solver = int 2
   \<and> num_vector_lengths example_solver * 2 = num_groups example_solver
   \<and> 0 \<le> num_vector_lengths example_solver
   \<and> computeKeff 2 (\<lambda>_. 0) (\<lambda>_. 0) example_solver =
       Inr (example_solver\<lparr>leakage := 2, k_eff := 2 / 3\<rparr>)"
proof -
  have h: "num_groups example_solver = int 2" "num_FSRs example_solver = int 2"
    "num_vector_lengths example_solver * 2 = num_groups example_solver"
    "(0::int) \<le> 2" "0 \<le> num_vector_lengths example_solver"
    by (simp_all add: example_solver_def)
  from computeKeff_ratio [OF h, of "\<lambda>_. 0" "\<lambda>_. 0"]
  have "computeKeff 2 (\<lambda>_. 0) (\<lambda>_. 0) example_solver =
       Inr (example_solver\<lparr>leakage := 2, k_eff := 2 / 3\<rparr>)"
    by (simp add: example_solver_rates)
  then show ?thesis using h by simp
qed

text \<open>
  The claim halves the leakage twice. On the example (every cross-section, flux, volume
  and leakage entry is 1: both rates are 4, the four leakage entries add up to 4) the
  source gives \<open>4 / (4 + 2)\<close> and the formula of the claim \<open>4 / (4 + 1)\<close>.
\<close>

theorem computeKeff_leakage_counted_once:
  "computeKeff 2 (\<lambda>_. 0) (\<lambda>_. 0) example_solver =
     Inr (example_solver\<lparr>leakage := 2, k_eff := 2 / 3\<rparr>)
   \<and> claimed_keff example_solver = 4 / 5
   \<and> map_sum id k_eff (computeKeff 2 (\<lambda>_. 0) (\<lambda>_. 0) example_solver)
       \<noteq> Inr (claimed_keff example_solver)"
proof -
  have h: "num_groups example_solver = int 2" "num_FSRs example_solver = int 2"
    "num_vector_lengths example_solver * 2 = num_groups example_solver"
    "(0::int) \<le> 2" "0 \<le> num_vector_lengths example_solver"
    by (simp_all add: example_solver_def)
  have code: "computeKeff 2 (\<lambda>_. 0) (\<lambda>_. 0) example_solver =
       Inr (example_solver\<lparr>leakage := 2, k_eff := 2 / 3\<rparr>)"
    using computeKeff_closed [OF h, of "\<lambda>_. 0" "\<lambda>_. 0"] by (simp add: example_solver_rates)
  have claim: "claimed_keff example_solver = 4 / 5"
    by (simp add: claimed_keff_def example_solver_def unit_material_def)
  have differ: "map_sum id k_eff (computeKeff 2 (\<lambda>_. 0) (\<lambda>_. 0) example_solver)
       \<noteq> Inr (claimed_keff example_solver)"
    by (simp add: code claim)
  show ?thesis using code claim differ by (intro conjI)
qed

section \<open>Arithmetic on the values of a double\<close>

lemma fp_minus_finite [simp]: "Finite x - Finite y = Finite (x - y)"
  by (simp add: minus_fp_def)

lemma fp_asum_Suc: "fp_asum (int (Suc n)) x = fp_asum (int n) x + \<bar>x n\<bar>"
  unfolding fp_asum_def nat_int
  by (simp only: upt_Suc_append [OF le0] fold_append fold_simps o_apply id_apply)

lemma fp_asum_cong:
  assumes "\<And>i. i < n \<Longrightarrow> x i = y i"
  shows "fp_asum (int n) x = fp_asum (int n) y"
  using assms
proof (induction n)
  case 0
  show ?case by (simp add: fp_asum_def)
next
  case (Suc n)
  have "fp_asum (int n) x = fp_asum (int n) y" using Suc by simp
  moreover have "x n = y n" using Suc.prems by simp
  ultimately show ?case by (simp only: fp_asum_Suc)
qed

lemma fp_asum_finite:
  assumes "\<And>i. i < n \<Longrightarrow> x i = Finite (y i)"
  shows "fp_asum (int n) x = Finite (\<Sum>i<n. \<bar>y i\<bar>)"
  using assms
proof (induction n)
  case 0
  show ?case by (simp add: fp_asum_def)
next
  case (Suc n)
  have "fp_asum (int n) x = Finite (\<Sum>i<n. \<bar>y i\<bar>)" using Suc by simp
  moreover have "x n = Finite (y n)" using Suc.prems by simp
  ultimately show ?case by (simp only: fp_asum_Suc) simp
qed

section \<open>The sources of the regions\<close>

text \<open>
  A projection that commutes with the body of a loop commutes with the loop.
\<close>

lemma fold_upd_prefix:
  fixes f0 :: "nat \<Rightarrow> real"
  shows "fold (\<lambda>j f. f(j := v j)) [0 ..< m] f0 = (\<lambda>i. if i < m then v i else f0 i)"
  using fold_upd_block [of 0 v m f0] by (auto simp: fun_eq_iff)

lemma asum_prefix:
  assumes "\<And>i. i < n \<Longrightarrow> x i = v i"
  shows "asum (int n) x = (\<Sum>i<n. \<bar>v i\<bar>)"
  unfolding asum_def nat_int by (rule sum.cong) (simp_all add: assms)

lemma fold_concat: "fold f (concat xss) = fold (fold f) xss"
  by (induction xss) simp_all

lemma fold_proj:
  assumes "\<And>x st. x \<in> set xs \<Longrightarrow> P (g x st) = h x (P st)"
  shows "P (fold g xs st) = fold h xs (P st)"
  using assms by (induction xs arbitrary: st) simp_all

lemma fission_source_closed:
  assumes ng: "num_groups s = int ng"
  shows "asum (num_groups s) (fold (fission_step s r) [0 ..< ng] buf) = spec_fission_source s r"
proof -
  have idx: "idx s r e = r * ng + e" for r e using ng by (rule idx_nat)
  have step: "fission_step s r = (\<lambda>e f. f(e := scalar_flux s (r * ng + e) * nu_sigma_f (FSR_materials s r) e))"
    by (intro ext) (simp add: fission_step_def idx)
  have "asum (int ng) (fold (fission_step s r) [0 ..< ng] buf) =
      (\<Sum>g<ng. \<bar>scalar_flux s (r * ng + g) * nu_sigma_f (FSR_materials s r) g\<bar>)"
    by (rule asum_prefix) (simp add: step fold_upd_prefix)
  then show ?thesis by (simp add: spec_fission_source_def ng mult.commute)
qed

lemma scatter_source_closed:
  assumes ng: "num_groups s = int ng"
  shows "asum (num_groups s) (fold (scatter_step s r G) [0 ..< ng] buf) = spec_scatter_source s r G"
proof -
  have idx: "idx s r e = r * ng + e" for r e using ng by (rule idx_nat)
  have step: "scatter_step s r G = (\<lambda>g f. f(g := sigma_s (FSR_materials s r) (G * ng + g) * scalar_flux s (r * ng + g)))"
    by (intro ext) (simp add: scatter_step_def idx)
  have "asum (int ng) (fold (scatter_step s r G) [0 ..< ng] buf) =
      (\<Sum>g<ng. \<bar>sigma_s (FSR_materials s r) (G * ng + g) * scalar_flux s (r * ng + g)\<bar>)"
    by (rule asum_prefix) (simp add: step fold_upd_prefix)
  then show ?thesis by (simp add: spec_scatter_source_def ng)
qed

text \<open>
  With \<open>k_eff\<close> not zero the source of a region and a group is the finite number
  \<open>spec_Q\<close>, and the body of the loop over \<open>G\<close> is \<open>flat_step\<close> on the four arrays.
\<close>

lemma group_step_proj:
  assumes ng: "num_groups s = int ng" and groups: "vector_groups VEC_LENGTH s = [0 ..< ng]"
    and keff: "k_eff s \<noteq> 0" and G: "G < ng"
  shows "proj4 (group_step VEC_LENGTH s r (spec_fission_source s r) G arrs) =
     flat_step s (r * ng + G) (proj4 arrs)"
proof -
  have idx: "idx s r G = r * ng + G" using ng by (rule idx_nat)
  have q: "(Finite 1 / Finite (k_eff s) * Finite (spec_fission_source s r)
          * Finite (chi (FSR_materials s r) G)
        + Finite (spec_scatter_source s r G)) * Finite ONE_OVER_FOUR_PI = Finite (spec_Q s r G)"
    using keff by (simp add: spec_Q_def ONE_OVER_FOUR_PI_def field_simps)
  show ?thesis
    unfolding group_step_def groups Let_def scatter_source_closed [OF ng] idx q
    using G by (simp add: proj4_def flat_step_def ng Let_def)
qed

lemma group_loop_proj:
  assumes ng: "num_groups s = int ng" and groups: "vector_groups VEC_LENGTH s = [0 ..< ng]"
    and keff: "k_eff s \<noteq> 0"
  shows "proj4 (fold (group_step VEC_LENGTH s r (spec_fission_source s r)) [0 ..< ng] arrs) =
     fold (flat_step s) [r * ng ..< r * ng + ng] (proj4 arrs)"
proof -
  have "proj4 (fold (group_step VEC_LENGTH s r (spec_fission_source s r)) [0 ..< ng] arrs) =
      fold (\<lambda>G. flat_step s (r * ng + G)) [0 ..< ng] (proj4 arrs)"
    by (rule fold_proj) (simp add: group_step_proj [OF ng groups keff])
  also have "\<dots> = fold (flat_step s) (map (\<lambda>G. G + r * ng) [0 ..< ng]) (proj4 arrs)"
    by (simp add: fold_map o_def add.commute)
  also have "map (\<lambda>G. G + r * ng) [0 ..< ng] = [r * ng ..< r * ng + ng]"
    by (simp only: map_add_upt add.commute)
  finally show ?thesis .
qed

lemma fsr_step_closed:
  assumes ng: "num_groups s = int ng" and groups: "vector_groups VEC_LENGTH s = [0 ..< ng]"
  shows "fsr_step VEC_LENGTH s fs0 ss0 r arrs =
     fold (group_step VEC_LENGTH s r (spec_fission_source s r)) [0 ..< ng]
       (arrs\<lparr>a_scatter := ss0 r\<rparr>)"
  unfolding fsr_step_def Let_def groups fission_source_closed [OF ng]
  by (simp only: ng nat_int)

lemma fsr_loop_closed:
  assumes ng: "num_groups s = int ng" and groups: "vector_groups VEC_LENGTH s = [0 ..< ng]"
    and keff: "k_eff s \<noteq> 0"
  shows "proj4 (fold (fsr_step VEC_LENGTH s fs0 ss0) [0 ..< nF] arrs) =
     fold (flat_step s) [0 ..< nF * ng] (proj4 arrs)"
proof -
  have row: "proj4 (fsr_step VEC_LENGTH s fs0 ss0 r st) =
      fold (flat_step s) [r * ng ..< (r + 1) * ng] (proj4 st)" for r st
    unfolding fsr_step_closed [OF ng groups] group_loop_proj [OF ng groups keff]
    by (simp add: proj4_def add.commute)
  have "proj4 (fold (fsr_step VEC_LENGTH s fs0 ss0) [0 ..< nF] arrs) =
      fold (\<lambda>r. fold (flat_step s) [r * ng ..< (r + 1) * ng]) [0 ..< nF] (proj4 arrs)"
    by (rule fold_proj) (rule row)
  also have "\<dots> = fold (fold (flat_step s)) (map (\<lambda>r. [r * ng ..< (r + 1) * ng]) [0 ..< nF]) (proj4 arrs)"
    by (simp add: fold_map o_def)
  also have "\<dots> = fold (flat_step s) [0 ..< nF * ng] (proj4 arrs)"
    by (simp only: fold_concat [symmetric] concat_blocks)
  finally show ?thesis .
qed

lemma flat_step_written: "flat_step s n (sources_written s n t) = sources_written s (Suc n) t"
proof (cases t)
  case (fields src old rat res)
  show ?thesis
    unfolding fields flat_step_def sources_written_def Let_def prod.case
    by (auto simp: fun_eq_iff less_Suc_eq)
qed

lemma flat_loop_closed: "fold (flat_step s) [0 ..< n] t = sources_written s n t"
proof (induction n)
  case 0
  show ?case by (cases t) (simp add: sources_written_def)
next
  case (Suc n)
  have "fold (flat_step s) [0 ..< Suc n] t = flat_step s n (fold (flat_step s) [0 ..< n] t)"
    by (simp only: upt_Suc_append [OF le0] fold_append fold_simps o_apply id_apply)
  then show ?case by (simp only: Suc flat_step_written)
qed

text \<open>
  The call as a whole, whatever the sources are: the three arrays of the solver, and the
  residual, which adds the absolute values of the entries of the array of residuals,
  written or not.
\<close>

lemma computeFSRSources_closed:
  assumes ng: "num_groups s = int ng" and nF: "num_FSRs s = int nF"
    and cover: "num_vector_lengths s * VEC_LENGTH = num_groups s"
    and VL: "0 \<le> VEC_LENGTH" and nvl: "0 \<le> num_vector_lengths s"
    and keff: "k_eff s \<noteq> 0"
  shows "computeFSRSources VEC_LENGTH res0 fs0 ss0 s =
     (fp_sqrt (fp_asum (int (nF * ng)) (spec_residual_entry s res0) / Finite (real nF)),
      spec_sources s)"
proof -
  have groups: "vector_groups VEC_LENGTH s = [0 ..< ng]"
    using ng cover VL nvl by (rule vector_groups_all)
  define init where "init = \<lparr>a_source = source s, a_old_source = old_source s, a_ratios = ratios s,
              a_residuals = res0, a_scatter = (\<lambda>_. 0)\<rparr>"
  define arrs where "arrs = fold (fsr_step VEC_LENGTH s fs0 ss0) [0 ..< nF] init"
  have "proj4 arrs = fold (flat_step s) [0 ..< nF * ng] (proj4 init)"
    unfolding arrs_def by (rule fsr_loop_closed [OF ng groups keff])
  then have written: "proj4 arrs = sources_written s (nF * ng) (source s, old_source s, ratios s, res0)"
    unfolding flat_loop_closed by (simp add: proj4_def init_def)
  have src: "a_source arrs = source (spec_sources s)"
    and old: "a_old_source arrs = old_source (spec_sources s)"
    and rat: "a_ratios arrs = ratios (spec_sources s)"
    using written by (simp_all add: proj4_def sources_written_def spec_sources_def Let_def ng nF)
  have res: "a_residuals arrs i = spec_residual_entry s res0 i" if "i < nF * ng" for i
    using written that
    by (simp add: proj4_def sources_written_def spec_residual_entry_def Let_def ng)
  have total: "fp_asum (int (nF * ng)) (a_residuals arrs) =
      fp_asum (int (nF * ng)) (spec_residual_entry s res0)"
    by (rule fp_asum_cong) (rule res)
  have s': "s\<lparr>source := source (spec_sources s), old_source := old_source (spec_sources s),
      ratios := ratios (spec_sources s)\<rparr> = spec_sources s"
    by (simp add: spec_sources_def Let_def)
  have size: "num_FSRs s * num_groups s = int (nF * ng)" by (simp add: ng nF)
  show ?thesis
    unfolding computeFSRSources_def Let_def size
    by (simp only: nF nat_int init_def [symmetric] arrs_def [symmetric] total src old rat s'
        of_int_of_nat_eq)
qed

text \<open>
  The source, the ratio and the old source of every region and group after the call.
\<close>

lemma spec_sources_entries:
  assumes ng: "num_groups s = int ng" and nF: "num_FSRs s = int nF" and r: "r < nF" and G: "G < ng"
  shows "source (spec_sources s) (r * ng + G) = Finite (spec_Q s r G)"
    and "old_source (spec_sources s) (r * ng + G) = Finite (spec_Q s r G)"
    and "ratios (spec_sources s) (r * ng + G) =
      Finite (spec_Q s r G) / Finite (sigma_t (FSR_materials s r) G)"
proof -
  have "r * ng + G < r * ng + ng" using G by simp
  also have "\<dots> = Suc r * ng" by simp
  also have "\<dots> \<le> nF * ng" using r by (intro mult_le_mono1) simp
  finally have "r * ng + G < nF * ng" .
  then show "source (spec_sources s) (r * ng + G) = Finite (spec_Q s r G)"
    and "old_source (spec_sources s) (r * ng + G) = Finite (spec_Q s r G)"
    and "ratios (spec_sources s) (r * ng + G) =
      Finite (spec_Q s r G) / Finite (sigma_t (FSR_materials s r) G)"
    using G by (simp_all add: spec_sources_def Let_def ng nF)
qed

lemma computeFSRSources_sources:
  assumes "num_groups s = int ng" and "num_FSRs s = int nF"
    and "num_vector_lengths s * VEC_LENGTH = num_groups s"
    and "0 \<le> VEC_LENGTH" and "0 \<le> num_vector_lengths s"
    and "k_eff s \<noteq> 0"
  shows "snd (computeFSRSources VEC_LENGTH res0 fs0 ss0 s) = spec_sources s
    \<and> (\<forall>r<nF. \<forall>G<ng.
          source (spec_sources s) (r * ng + G) = Finite (spec_Q s r G)
        \<and> ratios (spec_sources s) (r * ng + G) =
            Finite (spec_Q s r G) / Finite (sigma_t (FSR_materials s r) G)
        \<and> old_source (spec_sources s) (r * ng + G) = source (spec_sources s) (r * ng + G))"
  using assms computeFSRSources_closed [OF assms, of res0 fs0 ss0]
  by (simp add: spec_sources_entries)

text \<open>
  The residual, when the old sources are finite and every source passes the threshold.
\<close>

lemma computeFSRSources_residual:
  assumes ng: "num_groups s = int ng" and nF: "num_FSRs s = int nF"
    and cover: "num_vector_lengths s * VEC_LENGTH = num_groups s"
    and VL: "0 \<le> VEC_LENGTH" and nvl: "0 \<le> num_vector_lengths s"
    and keff: "k_eff s \<noteq> 0" and some: "0 < nF"
    and old: "\<And>i. i < nF * ng \<Longrightarrow> old_source s i = Finite (old i)"
    and large: "\<And>r G. r < nF \<Longrightarrow> G < ng \<Longrightarrow> 1 / 10 ^ 10 < \<bar>spec_Q s r G\<bar>"
  shows "fst (computeFSRSources VEC_LENGTH res0 fs0 ss0 s) = Finite (spec_residual s old)"
proof -
  define e where "e = (\<lambda>r G. ((spec_Q s r G - old (r * ng + G)) / spec_Q s r G)\<^sup>2)"
  have entry: "spec_residual_entry s res0 i = Finite (e (i div ng) (i mod ng))" if "i < nF * ng" for i
  proof -
    have "0 < ng" using that by (cases ng) simp_all
    then have G: "i mod ng < ng" by simp
    have r: "i div ng < nF" using that by (simp add: less_mult_imp_div_less)
    have q: "1 / 10 ^ 10 < \<bar>spec_Q s (i div ng) (i mod ng)\<bar>" using r G by (rule large)
    then have "spec_Q s (i div ng) (i mod ng) \<noteq> 0" by auto
    then show ?thesis
      using q old [OF that]
      by (simp add: spec_residual_entry_def Let_def ng e_def power2_eq_square del: divide_fp.simps)
        (simp add: power2_eq_square)
  qed
  have "fp_asum (int (nF * ng)) (spec_residual_entry s res0) =
      Finite (\<Sum>i<nF * ng. \<bar>e (i div ng) (i mod ng)\<bar>)"
    by (rule fp_asum_finite) (rule entry)
  also have "(\<Sum>i<nF * ng. \<bar>e (i div ng) (i mod ng)\<bar>) =
      (\<Sum>r<nF. \<Sum>G<ng. \<bar>e ((r * ng + G) div ng) ((r * ng + G) mod ng)\<bar>)"
    by (rule sum_rows)
  also have "\<dots> = (\<Sum>r<nF. \<Sum>G<ng. e r G)"
    by (intro sum.cong refl) (simp add: e_def)
  finally have total: "fp_asum (int (nF * ng)) (spec_residual_entry s res0) =
      Finite (\<Sum>r<nF. \<Sum>G<ng. e r G)" .
  have nonneg: "0 \<le> (\<Sum>r<nF. \<Sum>G<ng. e r G) / real nF"
    by (intro divide_nonneg_nonneg sum_nonneg) (simp_all add: e_def)
  have "fst (computeFSRSources VEC_LENGTH res0 fs0 ss0 s) =
      fp_sqrt (Finite (\<Sum>r<nF. \<Sum>G<ng. e r G) / Finite (real nF))"
    unfolding computeFSRSources_closed [OF ng nF cover VL nvl keff] total by simp
  also have "\<dots> = Finite (sqrt ((\<Sum>r<nF. \<Sum>G<ng. e r G) / real nF))"
    using some nonneg by simp
  finally show ?thesis by (simp add: spec_residual_def e_def ng nF)
qed

text \<open>
  When all the sources are products of non-negative numbers, the sums of absolute values
  are the plain sums of the claim.
\<close>

lemma spec_Q_nonneg:
  assumes "\<And>g. g < nat (num_groups s) \<Longrightarrow>
      0 \<le> nu_sigma_f (FSR_materials s r) g * scalar_flux s (r * nat (num_groups s) + g)"
    and "\<And>g. g < nat (num_groups s) \<Longrightarrow>
      0 \<le> sigma_s (FSR_materials s r) (G * nat (num_groups s) + g)
            * scalar_flux s (r * nat (num_groups s) + g)"
  shows "spec_Q s r G = claimed_Q s r G"
proof -
  have "spec_fission_source s r =
      (\<Sum>g<nat (num_groups s).
         nu_sigma_f (FSR_materials s r) g * scalar_flux s (r * nat (num_groups s) + g))"
    unfolding spec_fission_source_def by (rule sum.cong) (simp_all add: assms(1) abs_of_nonneg)
  moreover have "spec_scatter_source s r G =
      (\<Sum>g<nat (num_groups s).
         sigma_s (FSR_materials s r) (G * nat (num_groups s) + g)
           * scalar_flux s (r * nat (num_groups s) + g))"
    unfolding spec_scatter_source_def by (rule sum.cong) (simp_all add: assms(2) abs_of_nonneg)
  ultimately show ?thesis by (simp add: spec_Q_def claimed_Q_def)
qed

text \<open>
  On the example (every cross-section and flux is 1, the old sources are 1) every source
  is \<open>(2 + 2) / (4 pi)\<close>, which passes the threshold, and the residual is
  \<open>sqrt 2 * (pi - 1)\<close>.
\<close>

lemma pi_small: "pi < 10000000000"
  using pi_less_4 by linarith

lemma example_solver_Q: "spec_Q example_solver r G = 1 / pi"
  by (simp add: spec_Q_def spec_fission_source_def spec_scatter_source_def example_solver_def
      unit_material_def)

lemma dark_solver_Q: "spec_Q dark_solver r G = 0"
  by (simp add: spec_Q_def spec_fission_source_def spec_scatter_source_def example_solver_def
      dark_solver_def unit_material_def)

lemma example_solver_residual: "spec_residual example_solver (\<lambda>_. 1) = sqrt 2 * (pi - 1)"
proof -
  have "spec_residual example_solver (\<lambda>_. 1) = sqrt (2 * ((1 / pi - 1) * pi)\<^sup>2)"
    by (simp add: spec_residual_def example_solver_Q) (simp add: example_solver_def)
  also have "(1 / pi - 1) * pi = 1 - pi" by (simp add: field_simps)
  also have "sqrt (2 * (1 - pi)\<^sup>2) = sqrt 2 * \<bar>1 - pi\<bar>" by (simp add: real_sqrt_mult)
  also have "\<bar>1 - pi\<bar> = pi - 1" using pi_ge_two by simp
  finally show ?thesis .
qed

lemma Q_example_large: "1 / 10 ^ 10 < \<bar>1 / pi\<bar>"
  using pi_small pi_gt_zero by (simp add: field_simps)

lemma computeFSRSources_example:
  "computeFSRSources 2 (\<lambda>_. Finite 0) (\<lambda>_ _. 0) (\<lambda>_ _. 0) example_solver =
     (Finite (sqrt 2 * (pi - 1)), spec_sources example_solver)"
  "source (spec_sources example_solver) 3 = Finite (1 / pi)"
  "ratios (spec_sources example_solver) 3 = Finite (1 / pi)"
  "old_source (spec_sources example_solver) 3 = Finite (1 / pi)"
proof -
  have h: "num_groups example_solver = int 2" "num_FSRs example_solver = int 2"
    "num_vector_lengths example_solver * 2 = num_groups example_solver"
    "(0::int) \<le> 2" "0 \<le> num_vector_lengths example_solver"
    "k_eff example_solver \<noteq> 0"
    by (simp_all add: example_solver_def)
  have old: "old_source example_solver i = Finite ((\<lambda>_. 1) i)" for i
    by (simp add: example_solver_def)
  have large: "1 / 10 ^ 10 < \<bar>spec_Q example_solver r G\<bar>" for r G
    unfolding example_solver_Q by (rule Q_example_large)
  have "fst (computeFSRSources 2 (\<lambda>_. Finite 0) (\<lambda>_ _. 0) (\<lambda>_ _. 0) example_solver) =
      Finite (spec_residual example_solver (\<lambda>_. 1))"
    using h old large by (intro computeFSRSources_residual [where ng = 2 and nF = 2]) simp_all
  moreover have "snd (computeFSRSources 2 (\<lambda>_. Finite 0) (\<lambda>_ _. 0) (\<lambda>_ _. 0) example_solver) =
      spec_sources example_solver"
    using computeFSRSources_sources [OF h, of "\<lambda>_. Finite 0" "\<lambda>_ _. 0" "\<lambda>_ _. 0"] by simp
  ultimately show "computeFSRSources 2 (\<lambda>_. Finite 0) (\<lambda>_ _. 0) (\<lambda>_ _. 0) example_solver =
     (Finite (sqrt 2 * (pi - 1)), spec_sources example_solver)"
    by (simp add: example_solver_residual prod_eq_iff)
  have "(1::nat) < 2" by simp
  note e = spec_sources_entries [OF h(1,2) this this]
  show "source (spec_sources example_solver) 3 = Finite (1 / pi)"
    using e(1) by (simp add: example_solver_Q)
  show "old_source (spec_sources example_solver) 3 = Finite (1 / pi)"
    using e(2) by (simp add: example_solver_Q)
  show "ratios (spec_sources example_solver) 3 = Finite (1 / pi)"
    using e(3) by (simp add: example_solver_Q) (simp add: example_solver_def unit_material_def)
qed

text \<open>
  C3 with no flux. Every source is 0, so no entry of the array of residuals is written
  (the test at lines 352-354 fails), and the array comes from \<^verbatim>\<open>new\<close> without an initial
  value (line 297): the value returned is the square root of the sum of the absolute
  values of what the fresh array held, over the number of regions. If its four entries
  are 1 the call returns \<open>sqrt (4 / 2)\<close>; it returns 0, the value of the claim, only if
  they happen to be 0.
\<close>

theorem computeFSRSources_unwritten_residuals:
  "computeFSRSources 2 (\<lambda>_. Finite 1) (\<lambda>_ _. 0) (\<lambda>_ _. 0) dark_solver =
       (Finite (sqrt 2), spec_sources dark_solver)
   \<and> computeFSRSources 2 (\<lambda>_. Finite 0) (\<lambda>_ _. 0) (\<lambda>_ _. 0) dark_solver =
       (Finite 0, spec_sources dark_solver)
   \<and> map (source (spec_sources dark_solver)) [0 ..< 4] = [Finite 0, Finite 0, Finite 0, Finite 0]"
proof -
  have h: "num_groups dark_solver = int 2" "num_FSRs dark_solver = int 2"
    "num_vector_lengths dark_solver * 2 = num_groups dark_solver"
    "(0::int) \<le> 2" "0 \<le> num_vector_lengths dark_solver"
    "k_eff dark_solver \<noteq> 0"
    by (simp_all add: dark_solver_def example_solver_def)
  have entry: "spec_residual_entry dark_solver res0 = res0" for res0
    by (intro ext) (simp add: spec_residual_entry_def dark_solver_Q Let_def)
  have ones: "fp_asum (int (2 * 2)) (\<lambda>_. Finite 1) = Finite (\<Sum>i<(2::nat) * 2. \<bar>(\<lambda>_. 1::real) i\<bar>)"
    by (rule fp_asum_finite) simp
  have zeros: "fp_asum (int (2 * 2)) (\<lambda>_. Finite 0) = Finite (\<Sum>i<(2::nat) * 2. \<bar>(\<lambda>_. 0::real) i\<bar>)"
    by (rule fp_asum_finite) simp
  have one: "computeFSRSources 2 (\<lambda>_. Finite 1) (\<lambda>_ _. 0) (\<lambda>_ _. 0) dark_solver =
       (Finite (sqrt 2), spec_sources dark_solver)"
    unfolding computeFSRSources_closed [OF h] entry ones by simp
  have zero: "computeFSRSources 2 (\<lambda>_. Finite 0) (\<lambda>_ _. 0) (\<lambda>_ _. 0) dark_solver =
       (Finite 0, spec_sources dark_solver)"
    unfolding computeFSRSources_closed [OF h] entry zeros by simp
  have src: "map (source (spec_sources dark_solver)) [0 ..< 4] =
      [Finite 0, Finite 0, Finite 0, Finite 0]"
    by (simp add: upt_4 spec_sources_def Let_def dark_solver_Q)
      (simp add: dark_solver_def example_solver_def)
  show ?thesis using one zero src by (intro conjI)
qed

section \<open>Intersections of a track with a surface\<close>

text \<open>
  The Points reported after one or two \<^verbatim>\<open>setCoords\<close>, and the roots of the quadratic.
\<close>

lemma quadratic_root:
  fixes a b c r :: real
  assumes a: "a \<noteq> 0" and r: "r * r = b * b - 4 * a * c" and x: "x = (- b + r) / (2 * a)"
  shows "a * (x * x) + b * x + c = 0"
proof -
  have twice: "2 * a * x = - b + r" using a by (simp add: x)
  have "4 * a * (a * (x * x) + b * x + c) = (2 * a * x) * (2 * a * x) + 2 * b * (2 * a * x) + 4 * a * c"
    by (simp add: algebra_simps)
  also have "\<dots> = r * r - (b * b - 4 * a * c)"
    unfolding twice by (simp add: algebra_simps)
  also have "\<dots> = 0" by (simp add: r)
  finally show ?thesis using a by simp
qed

lemma reported_none: "reported (0, points) = []"
  by (simp add: reported_def)

lemma reported_single:
  assumes "p \<in> set (reported (count_forward angle y y0 0, set_point 0 x y points))"
  shows "p = \<lparr>px = x, py = y\<rparr> \<and> (angle < pi \<and> y > y0 \<or> angle > pi \<and> y < y0)"
  using assms by (auto simp: reported_def count_forward_def set_point_def split: if_splits)

lemma reported_pair:
  assumes "p \<in> set (reported (count_forward angle yb y0 (count_forward angle ya y0 0),
      set_point (count_forward angle ya y0 0) xb yb (set_point 0 xa ya points)))"
  shows "p = \<lparr>px = xa, py = ya\<rparr> \<and> (angle < pi \<and> ya > y0 \<or> angle > pi \<and> ya < y0)
       \<or> p = \<lparr>px = xb, py = yb\<rparr> \<and> (angle < pi \<and> yb > y0 \<or> angle > pi \<and> yb < y0)"
proof (cases "angle < pi \<and> ya > y0 \<or> angle > pi \<and> ya < y0")
  case True
  then have n1: "count_forward angle ya y0 0 = 1" by (auto simp: count_forward_def)
  show ?thesis
    using assms True unfolding n1
    by (auto simp: reported_def count_forward_def set_point_def split: if_splits)
next
  case False
  then have n1: "count_forward angle ya y0 0 = 0" by (auto simp: count_forward_def)
  show ?thesis
    using assms unfolding n1
    by (auto simp: reported_def count_forward_def set_point_def split: if_splits)
qed

text \<open>
  A Plane that is a line of the plane of the tracks (\<^verbatim>\<open>_A\<close> and \<^verbatim>\<open>_B\<close> are not both
  zero), from a finite start: the Point reported is finite, on the Plane and forward.
\<close>

lemma Plane_intersection_reported:
  assumes start: "point = \<lparr>px = Finite x0, py = Finite y0\<rparr>"
    and line: "coef_A s \<noteq> 0 \<or> coef_B s \<noteq> 0"
    and slope: "\<bar>angle - pi / 2\<bar> < 1 / 10 ^ 10 \<or> cos angle \<noteq> 0"
    and p: "p \<in> set (reported (Plane_intersection s point angle points))"
  shows "\<exists>x y. p = \<lparr>px = Finite x, py = Finite y\<rparr>
       \<and> coef_A s * x + coef_B s * y + coef_C s = 0 \<and> forward angle point p"
proof (cases "\<bar>angle - pi / 2\<bar> < 1 / 10 ^ 10")
  case True
  show ?thesis
  proof (cases "coef_B s = 0")
    case B: True
    then have "Plane_intersection s point angle points = (0, points)"
      using True by (simp add: Plane_intersection_def Let_def)
    then show ?thesis using p by (simp add: reported_none)
  next
    case B: False
    define y where "y = (- coef_A s * x0 - coef_C s) / coef_B s"
    have "Plane_intersection s point angle points =
        (count_forward angle (Finite y) (Finite y0) 0, set_point 0 (Finite x0) (Finite y) points)"
      using True B by (simp add: Plane_intersection_def Let_def y_def start)
    then have "p = \<lparr>px = Finite x0, py = Finite y\<rparr>"
      and "angle < pi \<and> Finite y > Finite y0 \<or> angle > pi \<and> Finite y < Finite y0"
      using p reported_single [of p angle "Finite y" "Finite y0" "Finite x0" points] by simp_all
    moreover have "coef_A s * x0 + coef_B s * y + coef_C s = 0"
      using B by (simp add: y_def)
    ultimately show ?thesis by (simp add: forward_def start)
  qed
next
  case False
  then have cos: "cos angle \<noteq> 0" using slope by simp
  define m where "m = sin angle / cos angle"
  have m: "Finite (sin angle) / Finite (cos angle) = Finite m"
    using cos by (simp add: m_def)
  define x where "x = - (coef_B s * (y0 - m * x0) + coef_C s) / (coef_A s + coef_B s * m)"
  define y where "y = y0 + m * (x - x0)"
  show ?thesis
  proof (cases "coef_B s \<noteq> 0 \<and> \<bar>- coef_A s / coef_B s - m\<bar> < 1 / 10 ^ 11")
    case par: True
    have "Plane_intersection s point angle points = (0, points)"
      unfolding Plane_intersection_def Let_def m using False par by simp
    then show ?thesis using p by (simp add: reported_none)
  next
    case par: False
    have den: "coef_A s + coef_B s * m \<noteq> 0"
    proof (cases "coef_B s = 0")
      case True
      then show ?thesis using line by simp
    next
      case B: False
      then have "\<not> \<bar>- coef_A s / coef_B s - m\<bar> < 1 / 10 ^ 11" using par by simp
      then have "- coef_A s / coef_B s \<noteq> m" by auto
      then show ?thesis using B by (simp add: field_simps)
    qed
    have test: "\<not> (\<bar>- Finite (coef_A s) / Finite (coef_B s) - Finite m\<bar> < Finite (1 / 10 ^ 11)
        \<and> coef_B s \<noteq> 0)"
      using par by (cases "coef_B s = 0") simp_all
    have sel: "px point = Finite x0" "py point = Finite y0" by (simp_all add: start)
    have xfp: "- (Finite (coef_B s) * (Finite y0 - Finite m * Finite x0) + Finite (coef_C s))
        / (Finite (coef_A s) + Finite (coef_B s) * Finite m) = Finite x"
      using den by (simp add: x_def)
    have yfp: "Finite y0 + Finite m * (Finite x - Finite x0) = Finite y"
      by (simp add: y_def)
    have res: "Plane_intersection s point angle points =
        (count_forward angle (Finite y) (Finite y0) 0, set_point 0 (Finite x) (Finite y) points)"
      unfolding Plane_intersection_def Let_def m sel xfp yfp
      using False test by (simp only: if_False)
    have "p = \<lparr>px = Finite x, py = Finite y\<rparr>"
      and "angle < pi \<and> Finite y > Finite y0 \<or> angle > pi \<and> Finite y < Finite y0"
      using p reported_single [of p angle "Finite y" "Finite y0" "Finite x" points]
      unfolding res by simp_all
    moreover have "coef_A s * x + coef_B s * y + coef_C s = 0"
    proof -
      have "(coef_A s + coef_B s * m) * x = - (coef_B s * (y0 - m * x0) + coef_C s)"
        using den by (simp add: x_def)
      then show ?thesis by (simp add: y_def algebra_simps)
    qed
    ultimately show ?thesis by (simp add: forward_def start)
  qed
qed

text \<open>
  A Circle (the constructor sets the two quadratic coefficients to 1), from a finite
  start: for a vertical track, and for any other track whose discriminant is not zero,
  the Points reported are finite, on the Circle and forward.
\<close>

lemma Circle_vertical_reported:
  assumes a: "a \<noteq> 0"
    and p: "p \<in> set (reported (Circle_vertical (Finite a) (Finite b) (Finite c) (Finite x0) (Finite y0)
        angle points))"
  shows "\<exists>y. p = \<lparr>px = Finite x0, py = Finite y\<rparr> \<and> a * (y * y) + b * y + c = 0
       \<and> (angle < pi \<and> Finite y > Finite y0 \<or> angle > pi \<and> Finite y < Finite y0)"
proof -
  define discr where "discr = b * b - 4 * a * c"
  have dfp: "Finite b * Finite b - Finite 4 * Finite a * Finite c = Finite discr"
    by (simp add: discr_def)
  have two: "Finite 2 * Finite a = Finite (2 * a)" by simp
  have nonneg: "0 \<le> discr"
  proof (rule ccontr)
    assume "\<not> 0 \<le> discr"
    then have "Circle_vertical (Finite a) (Finite b) (Finite c) (Finite x0) (Finite y0) angle points
        = (0, points)"
      unfolding Circle_vertical_def Let_def dfp by simp
    then show False using p by (simp add: reported_none)
  qed
  show ?thesis
  proof (cases "discr = 0")
    case True
    define y where "y = - b / (2 * a)"
    have yfp: "- Finite b / Finite (2 * a) = Finite y" using a by (simp add: y_def)
    have "Circle_vertical (Finite a) (Finite b) (Finite c) (Finite x0) (Finite y0) angle points =
        (count_forward angle (Finite y) (Finite y0) 0, set_point 0 (Finite x0) (Finite y) points)"
      unfolding Circle_vertical_def Let_def dfp two yfp using True by simp
    then have "p = \<lparr>px = Finite x0, py = Finite y\<rparr>"
      and "angle < pi \<and> Finite y > Finite y0 \<or> angle > pi \<and> Finite y < Finite y0"
      using p reported_single [of p angle "Finite y" "Finite y0" "Finite x0" points] by simp_all
    moreover have "a * (y * y) + b * y + c = 0"
      using a True by (intro quadratic_root [where r = 0]) (simp_all add: y_def discr_def)
    ultimately show ?thesis by blast
  next
    case False
    define ya where "ya = (- b + sqrt discr) / (2 * a)"
    define yb where "yb = (- b - sqrt discr) / (2 * a)"
    have root: "fp_sqrt (Finite discr) = Finite (sqrt discr)" using nonneg by simp
    have yafp: "(- Finite b + Finite (sqrt discr)) / Finite (2 * a) = Finite ya"
      using a by (simp add: ya_def)
    have ybfp: "(- Finite b - Finite (sqrt discr)) / Finite (2 * a) = Finite yb"
      using a by (simp add: yb_def)
    have "Circle_vertical (Finite a) (Finite b) (Finite c) (Finite x0) (Finite y0) angle points =
        (count_forward angle (Finite yb) (Finite y0) (count_forward angle (Finite ya) (Finite y0) 0),
         set_point (count_forward angle (Finite ya) (Finite y0) 0) (Finite x0) (Finite yb)
           (set_point 0 (Finite x0) (Finite ya) points))"
      unfolding Circle_vertical_def Let_def dfp two root yafp ybfp using False nonneg by simp
    then have cases: "p = \<lparr>px = Finite x0, py = Finite ya\<rparr>
         \<and> (angle < pi \<and> Finite ya > Finite y0 \<or> angle > pi \<and> Finite ya < Finite y0)
       \<or> p = \<lparr>px = Finite x0, py = Finite yb\<rparr>
         \<and> (angle < pi \<and> Finite yb > Finite y0 \<or> angle > pi \<and> Finite yb < Finite y0)"
      using p reported_pair [of p angle "Finite yb" "Finite y0" "Finite ya" "Finite x0" "Finite x0" points]
      by simp
    have ra: "a * (ya * ya) + b * ya + c = 0"
      using a nonneg by (intro quadratic_root [where r = "sqrt discr"]) (simp_all add: ya_def discr_def)
    have rb: "a * (yb * yb) + b * yb + c = 0"
      using a nonneg by (intro quadratic_root [where r = "- sqrt discr"]) (simp_all add: yb_def discr_def)
    from cases show ?thesis
    proof
      assume "p = \<lparr>px = Finite x0, py = Finite ya\<rparr>
         \<and> (angle < pi \<and> Finite ya > Finite y0 \<or> angle > pi \<and> Finite ya < Finite y0)"
      then show ?thesis using ra by blast
    next
      assume "p = \<lparr>px = Finite x0, py = Finite yb\<rparr>
         \<and> (angle < pi \<and> Finite yb > Finite y0 \<or> angle > pi \<and> Finite yb < Finite y0)"
      then show ?thesis using rb by blast
    qed
  qed
qed

lemma Circle_sloped_reported:
  assumes a: "a \<noteq> 0" and secant: "b * b - 4 * a * c \<noteq> 0"
    and p: "p \<in> set (reported (Circle_sloped (Finite a) (Finite b) (Finite c) (Finite m) (Finite x0)
        (Finite y0) angle points))"
  shows "\<exists>x y. p = \<lparr>px = Finite x, py = Finite y\<rparr> \<and> y = y0 + m * (x - x0)
       \<and> a * (x * x) + b * x + c = 0
       \<and> (angle < pi \<and> Finite y > Finite y0 \<or> angle > pi \<and> Finite y < Finite y0)"
proof -
  define discr where "discr = b * b - 4 * a * c"
  have dfp: "Finite b * Finite b - Finite 4 * Finite a * Finite c = Finite discr"
    by (simp add: discr_def)
  have two: "Finite 2 * Finite a = Finite (2 * a)" by simp
  have False: "discr \<noteq> 0" using secant by (simp add: discr_def)
  have nonneg: "0 \<le> discr"
  proof (rule ccontr)
    assume "\<not> 0 \<le> discr"
    then have "Circle_sloped (Finite a) (Finite b) (Finite c) (Finite m) (Finite x0) (Finite y0)
        angle points = (0, points)"
      unfolding Circle_sloped_def Let_def dfp by simp
    then show False using p by (simp add: reported_none)
  qed
  define xa where "xa = (- b + sqrt discr) / (2 * a)"
  define xb where "xb = (- b - sqrt discr) / (2 * a)"
  define ya where "ya = y0 + m * (xa - x0)"
  define yb where "yb = y0 + m * (xb - x0)"
  have root: "fp_sqrt (Finite discr) = Finite (sqrt discr)" using nonneg by simp
  have xafp: "(- Finite b + Finite (sqrt discr)) / Finite (2 * a) = Finite xa"
    using a by (simp add: xa_def)
  have xbfp: "(- Finite b - Finite (sqrt discr)) / Finite (2 * a) = Finite xb"
    using a by (simp add: xb_def)
  have yafp: "Finite y0 + Finite m * (Finite xa - Finite x0) = Finite ya"
    by (simp add: ya_def)
  have ybfp: "Finite y0 + Finite m * (Finite xb - Finite x0) = Finite yb"
    by (simp add: yb_def)
  have "Circle_sloped (Finite a) (Finite b) (Finite c) (Finite m) (Finite x0) (Finite y0) angle points =
      (count_forward angle (Finite yb) (Finite y0) (count_forward angle (Finite ya) (Finite y0) 0),
       set_point (count_forward angle (Finite ya) (Finite y0) 0) (Finite xb) (Finite yb)
         (set_point 0 (Finite xa) (Finite ya) points))"
    unfolding Circle_sloped_def Let_def dfp two root xafp xbfp yafp ybfp
    using False nonneg by simp
  then have cases: "p = \<lparr>px = Finite xa, py = Finite ya\<rparr>
       \<and> (angle < pi \<and> Finite ya > Finite y0 \<or> angle > pi \<and> Finite ya < Finite y0)
     \<or> p = \<lparr>px = Finite xb, py = Finite yb\<rparr>
       \<and> (angle < pi \<and> Finite yb > Finite y0 \<or> angle > pi \<and> Finite yb < Finite y0)"
    using p reported_pair [of p angle "Finite yb" "Finite y0" "Finite ya" "Finite xb" "Finite xa" points]
    by simp
  have ra: "a * (xa * xa) + b * xa + c = 0"
    using a nonneg by (intro quadratic_root [where r = "sqrt discr"]) (simp_all add: xa_def discr_def)
  have rb: "a * (xb * xb) + b * xb + c = 0"
    using a nonneg by (intro quadratic_root [where r = "- sqrt discr"]) (simp_all add: xb_def discr_def)
  from cases show ?thesis
  proof
    assume "p = \<lparr>px = Finite xa, py = Finite ya\<rparr>
       \<and> (angle < pi \<and> Finite ya > Finite y0 \<or> angle > pi \<and> Finite ya < Finite y0)"
    then show ?thesis using ra ya_def by blast
  next
    assume "p = \<lparr>px = Finite xb, py = Finite yb\<rparr>
       \<and> (angle < pi \<and> Finite yb > Finite y0 \<or> angle > pi \<and> Finite yb < Finite y0)"
    then show ?thesis using rb yb_def by blast
  qed
qed

lemma Circle_intersection_reported:
  assumes unit: "coef_A s = 1" "coef_B s = 1"
    and start: "point = \<lparr>px = Finite x0, py = Finite y0\<rparr>"
    and secant: "\<bar>angle - pi / 2\<bar> < 1 / 10 ^ 10
        \<or> cos angle \<noteq> 0 \<and> sloped_discriminant s x0 y0 angle \<noteq> 0"
    and p: "p \<in> set (reported (Circle_intersection s point angle points))"
  shows "\<exists>x y. p = \<lparr>px = Finite x, py = Finite y\<rparr>
       \<and> x * x + y * y + coef_C s * x + coef_D s * y + coef_E s = 0 \<and> forward angle point p"
proof (cases "\<bar>angle - pi / 2\<bar> < 1 / 10 ^ 10")
  case True
  define c where "c = x0 * x0 + coef_C s * x0 + coef_E s"
  have sel: "px point = Finite x0" "py point = Finite y0" by (simp_all add: start)
  have cfp: "Finite 1 * Finite x0 * Finite x0 + Finite (coef_C s) * Finite x0 + Finite (coef_E s)
      = Finite c"
    by (simp add: c_def)
  have one: "Finite 1 * Finite 1 = Finite 1" by simp
  have "Circle_intersection s point angle points =
      Circle_vertical (Finite 1) (Finite (coef_D s)) (Finite c) (Finite x0) (Finite y0) angle points"
    unfolding Circle_intersection_def Let_def unit sel cfp one using True by (simp only: if_True)
  with p have "p \<in> set (reported (Circle_vertical (Finite 1) (Finite (coef_D s)) (Finite c)
      (Finite x0) (Finite y0) angle points))"
    by simp
  from Circle_vertical_reported [OF _ this]
  obtain y where "p = \<lparr>px = Finite x0, py = Finite y\<rparr>" and "1 * (y * y) + coef_D s * y + c = 0"
    and "angle < pi \<and> Finite y > Finite y0 \<or> angle > pi \<and> Finite y < Finite y0"
    by auto
  then have "p = \<lparr>px = Finite x0, py = Finite y\<rparr>
      \<and> x0 * x0 + y * y + coef_C s * x0 + coef_D s * y + coef_E s = 0 \<and> forward angle point p"
    by (simp add: forward_def start c_def algebra_simps)
  then show ?thesis by blast
next
  case False
  then have cos: "cos angle \<noteq> 0" and discr0: "sloped_discriminant s x0 y0 angle \<noteq> 0"
    using secant by simp_all
  define m where "m = sin angle / cos angle"
  define q where "q = y0 - m * x0"
  define a where "a = 1 + m * m"
  define b where "b = 2 * m * q + coef_C s + coef_D s * m"
  define c where "c = q * q + coef_D s * q + coef_E s"
  have sel: "px point = Finite x0" "py point = Finite y0" by (simp_all add: start)
  have mfp: "Finite (sin angle) / Finite (cos angle) = Finite m" using cos by (simp add: m_def)
  have qfp: "Finite y0 - Finite m * Finite x0 = Finite q" by (simp add: q_def)
  have afp: "Finite 1 + Finite 1 * Finite 1 * Finite m * Finite m = Finite a" by (simp add: a_def)
  have bfp: "Finite 2 * Finite 1 * Finite m * Finite q + Finite (coef_C s) + Finite (coef_D s) * Finite m
      = Finite b"
    by (simp add: b_def)
  have cfp: "Finite 1 * Finite q * Finite q + Finite (coef_D s) * Finite q + Finite (coef_E s)
      = Finite c"
    by (simp add: c_def)
  have "Circle_intersection s point angle points =
      Circle_sloped (Finite a) (Finite b) (Finite c) (Finite m) (Finite x0) (Finite y0) angle points"
    unfolding Circle_intersection_def Let_def unit sel mfp qfp afp bfp cfp
    using False by (simp only: if_False)
  with p have p': "p \<in> set (reported (Circle_sloped (Finite a) (Finite b) (Finite c) (Finite m)
      (Finite x0) (Finite y0) angle points))"
    by simp
  have a0: "a \<noteq> 0"
  proof -
    have "0 \<le> m * m" by simp
    then have "0 < a" unfolding a_def by linarith
    then show ?thesis by simp
  qed
  have d0: "b * b - 4 * a * c \<noteq> 0"
    using discr0 by (simp add: sloped_discriminant_def Let_def m_def q_def a_def b_def c_def)
  from Circle_sloped_reported [OF a0 d0 p']
  obtain x y where pt: "p = \<lparr>px = Finite x, py = Finite y\<rparr>" and y: "y = q + m * x"
    and root: "a * (x * x) + b * x + c = 0"
    and fwd: "angle < pi \<and> Finite y > Finite y0 \<or> angle > pi \<and> Finite y < Finite y0"
    by (auto simp: q_def algebra_simps)
  have "x * x + y * y + coef_C s * x + coef_D s * y + coef_E s = a * (x * x) + b * x + c"
    unfolding y a_def b_def c_def by (simp add: algebra_simps)
  then have "p = \<lparr>px = Finite x, py = Finite y\<rparr>
      \<and> x * x + y * y + coef_C s * x + coef_D s * y + coef_E s = 0 \<and> forward angle point p"
    using pt root fwd by (simp add: forward_def start)
  then show ?thesis by blast
qed

text \<open>
  Together: from a finite start, on a track that is vertical or has a finite slope, every
  Point that a line or a Circle with a discriminant other than zero reports is on the
  surface and forward.
\<close>

lemma intersection_reported:
  assumes start: "point = \<lparr>px = Finite x0, py = Finite y0\<rparr>"
    and slope: "\<bar>angle - pi / 2\<bar> < 1 / 10 ^ 10 \<or> cos angle \<noteq> 0"
    and plane: "surface_type s \<noteq> CIRCLE \<Longrightarrow> coef_A s \<noteq> 0 \<or> coef_B s \<noteq> 0"
    and circle: "surface_type s = CIRCLE \<Longrightarrow> coef_A s = 1 \<and> coef_B s = 1
        \<and> (\<bar>angle - pi / 2\<bar> < 1 / 10 ^ 10 \<or> sloped_discriminant s x0 y0 angle \<noteq> 0)"
    and p: "p \<in> set (reported (intersection s point angle points))"
  shows "\<bar>evaluate s p\<bar> < Finite ON_SURFACE_THRESH \<and> forward angle point p"
proof (cases "surface_type s = CIRCLE")
  case True
  have p': "p \<in> set (reported (Circle_intersection s point angle points))"
    using p True by (simp add: intersection_def)
  have secant: "\<bar>angle - pi / 2\<bar> < 1 / 10 ^ 10
        \<or> cos angle \<noteq> 0 \<and> sloped_discriminant s x0 y0 angle \<noteq> 0"
    using circle [OF True] slope by blast
  from circle [OF True] have unit: "coef_A s = 1" "coef_B s = 1" by simp_all
  from Circle_intersection_reported [OF unit start secant p']
  obtain x y where "p = \<lparr>px = Finite x, py = Finite y\<rparr>"
    and "x * x + y * y + coef_C s * x + coef_D s * y + coef_E s = 0" and "forward angle point p"
    by blast
  then show ?thesis using True by (simp add: evaluate_def ON_SURFACE_THRESH_def)
next
  case False
  have p': "p \<in> set (reported (Plane_intersection s point angle points))"
    using p False by (simp add: intersection_def)
  from Plane_intersection_reported [OF start plane [OF False] slope p']
  obtain x y where "p = \<lparr>px = Finite x, py = Finite y\<rparr>"
    and "coef_A s * x + coef_B s * y + coef_C s = 0" and "forward angle point p"
    by blast
  then show ?thesis using False by (simp add: evaluate_def ON_SURFACE_THRESH_def)
qed

text \<open>
  A plane \<open>z = 1\<close> has \<^verbatim>\<open>_A\<close> and \<^verbatim>\<open>_B\<close> zero. On the track from the origin at the angle
  \<open>pi / 4\<close> the test for parallel lines fails (\<^verbatim>\<open>_B\<close> is zero), \<^verbatim>\<open>xcurr\<close> is \<open>1 / 0\<close>, and
  the call reports one Point, at infinity, where the plane does not evaluate to a number.
\<close>

lemma level_plane_constructed:
  "ZPlane_ctor 1 2 initial_globals =
     Inr (level_plane, initial_globals\<lparr>surf_auto_id := 10001, surf_n := 1\<rparr>)"
  by (simp add: ZPlane_ctor_def Plane_ctor_def Surface_ctor_def surf_id_def initial_globals_def
      level_plane_def)

lemma not_vertical:
  assumes "1 / 10 ^ 10 \<le> \<bar>cos angle\<bar>"
  shows "\<not> \<bar>angle - pi / 2\<bar> < 1 / 10 ^ 10"
proof -
  have "cos angle = sin (pi / 2 - angle)" by (simp add: sin_diff)
  then have "\<bar>cos angle\<bar> \<le> \<bar>pi / 2 - angle\<bar>" by (simp add: abs_sin_x_le_abs_x)
  then show ?thesis using assms by linarith
qed

lemma ZPlane_intersection_at_infinity:
  "intersection level_plane \<lparr>px = Finite 0, py = Finite 0\<rparr> (pi / 4) origin_points =
     (1, \<lparr>px = PlusInf, py = PlusInf\<rparr>, \<lparr>px = Finite 0, py = Finite 0\<rparr>)"
  "evaluate level_plane \<lparr>px = PlusInf, py = PlusInf\<rparr> = NaN"
proof -
  have "(1::real) / 10 ^ 10 \<le> sqrt 2 / 2"
  proof -
    have "1 \<le> sqrt 2" by simp
    then have "1 \<le> sqrt 2 * 5000000000" by linarith
    then show ?thesis by simp
  qed
  then have sloped: "\<not> \<bar>pi / 4 - pi / 2\<bar> < 1 / 10 ^ 10"
    by (intro not_vertical) (simp add: cos_45)
  have m: "Finite (sin (pi / 4)) / Finite (cos (pi / 4)) = Finite 1"
    by (simp add: sin_45 cos_45)
  have fwd: "pi / 4 < pi" by simp
  show "intersection level_plane \<lparr>px = Finite 0, py = Finite 0\<rparr> (pi / 4) origin_points =
     (1, \<lparr>px = PlusInf, py = PlusInf\<rparr>, \<lparr>px = Finite 0, py = Finite 0\<rparr>)"
    unfolding intersection_def Plane_intersection_def Let_def m
    using sloped fwd
    by (simp add: level_plane_def origin_points_def signed_inf_def count_forward_def set_point_def
        minus_fp_def)
  show "evaluate level_plane \<lparr>px = PlusInf, py = PlusInf\<rparr> = NaN"
    by (simp add: evaluate_def level_plane_def signed_inf_def)
qed

text \<open>
  The track from \<open>(- 3, - 7 / 2)\<close> at the angle \<open>arctan (15 / 8)\<close> has the slope \<open>15 / 8\<close>,
  is not vertical and goes upwards.
\<close>

lemma arctan_slope: "sin (arctan (15 / 8)) / cos (arctan (15 / 8)) = 15 / 8"
  using tan_arctan [of "15 / 8"] by (simp add: tan_def)

lemma arctan_cos: "cos (arctan (15 / 8)) = 8 / 17"
proof -
  have "1 + (15 / 8 :: real)\<^sup>2 = (17 / 8)\<^sup>2" by (simp add: power2_eq_square)
  then have "sqrt (1 + (15 / 8 :: real)\<^sup>2) = 17 / 8" by (simp only: real_sqrt_abs)
  then have "cos (arctan (15 / 8)) = 1 / (17 / 8)" by (simp only: cos_arctan)
  then show ?thesis by simp
qed

lemma arctan_sloped: "\<not> \<bar>arctan (15 / 8) - pi / 2\<bar> < 1 / 10 ^ 10"
  by (rule not_vertical) (simp add: arctan_cos)

lemma arctan_upwards: "arctan (15 / 8) < pi"
  using arctan_ubound [of "15 / 8"] pi_gt_zero by linarith

text \<open>
  C2 on a tangent track. The track from \<open>(- 3, - 7 / 2)\<close> with the slope \<open>15 / 8\<close> touches
  the circle of radius 1 about the origin at \<open>(- 15 / 17, 8 / 17)\<close>: the coefficients of
  the quadratic are \<open>289 / 64\<close>, \<open>255 / 32\<close> and \<open>225 / 64\<close>, and the discriminant is zero
  (all of these are exact in binary floating point). In that branch
  \<^verbatim>\<open>Circle::intersection\<close> computes \<^verbatim>\<open>ycurr\<close> from \<^verbatim>\<open>points[0].getX()\<close>, the x coordinate
  that the buffer held on entry (here 0), and not from \<^verbatim>\<open>xcurr\<close> as the branch of two
  intersections does: it reports one Point, \<open>(- 15 / 17, 17 / 8)\<close>, where the circle
  evaluates to \<open>79425 / 18496\<close>, which is not below \<^verbatim>\<open>ON_SURFACE_THRESH\<close>.
\<close>

theorem Circle_intersection_tangent_off_surface:
  "intersection pin_circle \<lparr>px = Finite (- 3), py = Finite (- 7 / 2)\<rparr> (arctan (15 / 8))
       origin_points =
     (1, \<lparr>px = Finite (- 15 / 17), py = Finite (17 / 8)\<rparr>, \<lparr>px = Finite 0, py = Finite 0\<rparr>)
   \<and> evaluate pin_circle \<lparr>px = Finite (- 15 / 17), py = Finite (17 / 8)\<rparr> = Finite (79425 / 18496)
   \<and> \<not> \<bar>evaluate pin_circle \<lparr>px = Finite (- 15 / 17), py = Finite (17 / 8)\<rparr>\<bar>
         < Finite ON_SURFACE_THRESH"
proof -
  have m: "Finite (sin (arctan (15 / 8))) / Finite (cos (arctan (15 / 8))) = Finite (15 / 8)"
    using arctan_slope by (simp add: arctan_cos)
  have sloped: "Circle_sloped (Finite (289 / 64)) (Finite (255 / 32)) (Finite (225 / 64))
      (Finite (15 / 8)) (Finite (- 3)) (Finite (- 7 / 2)) (arctan (15 / 8)) origin_points =
      (1, \<lparr>px = Finite (- 15 / 17), py = Finite (17 / 8)\<rparr>, \<lparr>px = Finite 0, py = Finite 0\<rparr>)"
    by (simp add: Circle_sloped_def origin_points_def Let_def count_forward_def set_point_def
        arctan_upwards)
  have run: "intersection pin_circle \<lparr>px = Finite (- 3), py = Finite (- 7 / 2)\<rparr> (arctan (15 / 8))
       origin_points =
     (1, \<lparr>px = Finite (- 15 / 17), py = Finite (17 / 8)\<rparr>, \<lparr>px = Finite 0, py = Finite 0\<rparr>)"
    unfolding intersection_def Circle_intersection_def Let_def m
    using arctan_sloped sloped by (simp add: pin_circle_def)
  have off: "evaluate pin_circle \<lparr>px = Finite (- 15 / 17), py = Finite (17 / 8)\<rparr> =
      Finite (79425 / 18496)"
    by (simp add: evaluate_def pin_circle_def)
  have far: "\<not> \<bar>evaluate pin_circle \<lparr>px = Finite (- 15 / 17), py = Finite (17 / 8)\<rparr>\<bar>
         < Finite ON_SURFACE_THRESH"
    unfolding off by (simp add: ON_SURFACE_THRESH_def)
  show ?thesis using run off far by (intro conjI)
qed

section \<open>Identifiers\<close>

text \<open>
  The constructors of the example pin: the Circle with the user id 1 and the cell with
  an automatic id.
\<close>

lemma pin_circle_constructed:
  "Circle_ctor 0 0 1 1 initial_globals =
     Inr (pin_circle, initial_globals\<lparr>surf_auto_id := 10001, surf_n := 1\<rparr>)"
  by (simp add: Circle_ctor_def Surface_ctor_def surf_id_def initial_globals_def pin_circle_def)

lemma Cell_ctor_auto: "Cell_ctor u 0 g =
  Inr ((cell_auto_id g, cell_n g), g\<lparr>cell_auto_id := cell_auto_id g + 1, cell_n := cell_n g + 1\<rparr>)"
  by (simp add: Cell_ctor_def cell_id_def)

lemma Cell_ctor_user: "ident \<noteq> 0 \<Longrightarrow> ident < 10000 \<Longrightarrow>
  Cell_ctor u ident g = Inr ((ident, cell_n g), g\<lparr>cell_n := cell_n g + 1\<rparr>)"
  by (simp add: Cell_ctor_def)

lemma Cell_ctor_rejects: "10000 \<le> ident \<Longrightarrow> Cell_ctor u ident g = Inl (CellIdProhibited ident)"
  by (auto simp: Cell_ctor_def)

lemma Surface_ctor_auto: "Surface_ctor 0 g =
  Inr ((surf_auto_id g, surf_n g), g\<lparr>surf_auto_id := surf_auto_id g + 1, surf_n := surf_n g + 1\<rparr>)"
  by (simp add: Surface_ctor_def surf_id_def)

text \<open>
  C7. A user id of 10000 or more must be rejected however many objects exist. The Cell
  constructor compares with the constant 10000 (\<open>Cell_ctor_rejects\<close>); the Surface
  constructor compares with the running counter: after one automatic Surface (id 10000,
  counter 10001) the user id 10000 is accepted and two Surfaces share the id.
\<close>

theorem Surface_ctor_accepts_reserved_id:
  "Surface_ctor 0 initial_globals =
     Inr ((10000, 0), initial_globals\<lparr>surf_auto_id := 10001, surf_n := 1\<rparr>)
   \<and> Surface_ctor 10000 (initial_globals\<lparr>surf_auto_id := 10001, surf_n := 1\<rparr>) =
     Inr ((10000, 1), initial_globals\<lparr>surf_auto_id := 10002, surf_n := 2\<rparr>)"
  by (simp add: Surface_ctor_def surf_id_def initial_globals_def)

section \<open>The padded number of groups\<close>

text \<open>
  C8. The stored number of groups must be the least multiple of the vector length that is
  not below the geometry's. The source computes \<open>(G + 1) / V\<close> vector lengths: with
  \<open>V = 8\<close>, nine groups become 8 and one group becomes 0.
\<close>

theorem setGeometry_loses_groups:
  "setGeometry (\<lambda>s. s\<lparr>num_groups := 9\<rparr>) initial_solver =
     Inr (initial_solver\<lparr>num_groups := 8, num_vector_lengths := 1, polar_times_groups := 0\<rparr>)
   \<and> setGeometry (\<lambda>s. s\<lparr>num_groups := 1\<rparr>) initial_solver =
     Inr (initial_solver\<lparr>num_groups := 0, num_vector_lengths := 0, polar_times_groups := 0\<rparr>)"
  by (simp add: setGeometry_def initial_solver_def signed_divide_int_def)

section \<open>Surfaces bound to a cell\<close>

text \<open>
  C10. With a halfspace of \<open>1\<close> or \<open>-1\<close>, \<open>addSurface\<close> succeeds and stores the binding
  under the id of the Surface: a binding already stored under that id is replaced, every
  other binding stays, the keys stay ordered, and the number of Surfaces before and after
  is the number of distinct ids bound.
\<close>

theorem addSurface_stores_binding:
  assumes "h = 1 \<or> h = - 1"
    and "sorted_wrt (<) (map fst (surfaces (core c)))"
  shows "\<exists>c'. addSurface h s c = Inr c'
    \<and> map_of (surfaces (core c')) =
        (map_of (surfaces (core c)))(s_id s \<mapsto> \<lparr>surface = s, halfspace = h\<rparr>)
    \<and> sorted_wrt (<) (map fst (surfaces (core c')))
    \<and> getNumSurfaces c = int (card (dom (map_of (surfaces (core c)))))
    \<and> getNumSurfaces c' = int (card (insert (s_id s) (dom (map_of (surfaces (core c))))))"
proof -
  let ?m = "surfaces (core c)"
  let ?v = "\<lparr>surface = s, halfspace = h\<rparr>"
  let ?c' = "map_fields (\<lambda>f. f\<lparr>surfaces := map_assign (s_id s) ?v (surfaces f)\<rparr>) c"
  have run: "addSurface h s c = Inr ?c'"
    using assms(1) by (auto simp: addSurface_def)
  have m': "surfaces (core ?c') = map_assign (s_id s) ?v ?m"
    by (simp add: map_fields_def)
  have sorted': "sorted_wrt (<) (map fst (map_assign (s_id s) ?v ?m))"
    using assms(2) by (rule sorted_map_assign)
  have before: "length ?m = card (dom (map_of ?m))"
    using assms(2) by (rule length_sorted_map)
  have "length (map_assign (s_id s) ?v ?m) = card (dom (map_of (map_assign (s_id s) ?v ?m)))"
    using sorted' by (rule length_sorted_map)
  then have after: "length (map_assign (s_id s) ?v ?m) = card (insert (s_id s) (dom (map_of ?m)))"
    by (simp add: map_of_map_assign)
  show ?thesis
    using run m' sorted' before after
    by (simp add: getNumSurfaces_def map_of_map_assign)
qed

theorem addSurface_stores_binding_witness:
  "((1::int) = 1 \<or> (1::int) = - 1)
   \<and> sorted_wrt (<) (map fst (surfaces (core (pin_cell 0 0))))
   \<and> getNumSurfaces (pin_cell 0 0) = 1
   \<and> (\<exists>c'. addSurface 1 pin_circle (pin_cell 0 0) = Inr c'
        \<and> map_of (surfaces (core c')) 1 = Some \<lparr>surface = pin_circle, halfspace = 1\<rparr>
        \<and> getNumSurfaces c' = 1)"
proof -
  have h: "(1::int) = 1 \<or> (1::int) = - 1" by simp
  have srt: "sorted_wrt (<) (map fst (surfaces (core (pin_cell 0 0))))"
    by (simp add: pin_cell_def)
  have dom: "dom (map_of (surfaces (core (pin_cell 0 0)))) = {1}"
    by (auto simp: pin_cell_def pin_circle_def)
  have id: "s_id pin_circle = 1" by (simp add: pin_circle_def)
  from addSurface_stores_binding [OF h srt, of pin_circle]
  obtain c' where "addSurface 1 pin_circle (pin_cell 0 0) = Inr c'"
    and "map_of (surfaces (core c')) =
        (map_of (surfaces (core (pin_cell 0 0))))(s_id pin_circle \<mapsto> \<lparr>surface = pin_circle, halfspace = 1\<rparr>)"
    and "getNumSurfaces (pin_cell 0 0) = int (card (dom (map_of (surfaces (core (pin_cell 0 0))))))"
    and "getNumSurfaces c' = int (card (insert (s_id pin_circle) (dom (map_of (surfaces (core (pin_cell 0 0)))))))"
    by blast
  then show ?thesis using h srt by (simp add: dom id)
qed

end
